(* ===== verification/Prelude.thy ===== *)
theory Prelude
  imports Main "HOL-Library.Sublist"
begin

text \<open>
  Shared vocabulary of the development: the result of a Rust computation that may panic
  (\<open>outcome\<close>), its sequencing, the all-or-nothing traversal behind
  \<open>Iterator::collect::<Result<Vec<_>, _>>\<close>, effectful actions over an explicit state, and the
  generic list facts the component theories use.
\<close>

named_theorems outcome_simps "evaluation of outcomes and actions"
named_theorems rust_defs "definitions of the standard-library operations the code calls"

section \<open>Results, errors and panics\<close>

text \<open>
  A Rust function returning \<open>Result<T, E>\<close> ends in one of three ways: with a value, with an error,
  or by unwinding (an arithmetic overflow under overflow checks, a slice off a character
  boundary, an index out of range).
\<close>

datatype ('e, 'a) outcome = Ok 'a | Err 'e | Panic

fun obind :: "('e, 'a) outcome \<Rightarrow> ('a \<Rightarrow> ('e, 'b) outcome) \<Rightarrow> ('e, 'b) outcome" where
  "obind (Ok a) f = f a"
| "obind (Err e) f = Err e"
| "obind Panic f = Panic"

fun map_err :: "('e \<Rightarrow> 'f) \<Rightarrow> ('e, 'a) outcome \<Rightarrow> ('f, 'a) outcome" where
  "map_err f (Ok a) = Ok a"
| "map_err f (Err e) = Err (f e)"
| "map_err f Panic = Panic"

fun unwrap_or :: "'a \<Rightarrow> ('e, 'a) outcome \<Rightarrow> ('e, 'a) outcome" where
  "unwrap_or d (Ok a) = Ok a"
| "unwrap_or d (Err e) = Ok d"
| "unwrap_or d Panic = Panic"

definition ok_or :: "'e \<Rightarrow> 'a option \<Rightarrow> ('e, 'a) outcome" where
  "ok_or e x = (case x of None \<Rightarrow> Err e | Some a \<Rightarrow> Ok a)"

definition of_sum :: "'e + 'a \<Rightarrow> ('e, 'a) outcome" where
  "of_sum x = (case x of Inl e \<Rightarrow> Err e | Inr a \<Rightarrow> Ok a)"

lemma ok_or_simps [simp]: "ok_or e None = Err e" "ok_or e (Some a) = Ok a"
  by (simp_all add: ok_or_def)

lemma of_sum_simps [simp]: "of_sum (Inl e) = Err e" "of_sum (Inr a) = Ok a"
  by (simp_all add: of_sum_def)

lemma obind_eq_Ok: "obind m f = Ok b \<longleftrightarrow> (\<exists>a. m = Ok a \<and> f a = Ok b)"
  by (cases m) auto

lemma obind_eq_Err: "obind m f = Err e \<longleftrightarrow> m = Err e \<or> (\<exists>a. m = Ok a \<and> f a = Err e)"
  by (cases m) auto

lemma obind_eq_Panic: "obind m f = Panic \<longleftrightarrow> m = Panic \<or> (\<exists>a. m = Ok a \<and> f a = Panic)"
  by (cases m) auto

lemma map_err_eq_Ok [simp]: "map_err f m = Ok a \<longleftrightarrow> m = Ok a"
  by (cases m) auto

lemma map_err_eq_Err: "map_err f m = Err e \<longleftrightarrow> (\<exists>d. m = Err d \<and> e = f d)"
  by (cases m) auto

lemma map_err_eq_Panic [simp]: "map_err f m = Panic \<longleftrightarrow> m = Panic"
  by (cases m) auto

lemma unwrap_or_eq_Ok: "unwrap_or d m = Ok a \<longleftrightarrow> m = Ok a \<or> (\<exists>e. m = Err e \<and> a = d)"
  by (cases m) auto

lemma unwrap_or_not_Err [simp]: "unwrap_or d m \<noteq> Err e"
  by (cases m) auto

lemma unwrap_or_eq_Panic [simp]: "unwrap_or d m = Panic \<longleftrightarrow> m = Panic"
  by (cases m) auto

lemma ok_or_eq_Ok [simp]: "ok_or e x = Ok a \<longleftrightarrow> x = Some a"
  by (cases x) auto

lemma ok_or_eq_Err [simp]: "ok_or e x = Err d \<longleftrightarrow> x = None \<and> d = e"
  by (cases x) auto

lemma ok_or_not_Panic [simp]: "ok_or e x \<noteq> Panic"
  by (cases x) auto

lemma of_sum_eq_Ok [simp]: "of_sum x = Ok a \<longleftrightarrow> x = Inr a"
  by (cases x) auto

lemma of_sum_eq_Err [simp]: "of_sum x = Err e \<longleftrightarrow> x = Inl e"
  by (cases x) auto

lemma of_sum_not_Panic [simp]: "of_sum x \<noteq> Panic"
  by (cases x) auto

lemmas outcome_iffs = obind_eq_Ok obind_eq_Err obind_eq_Panic map_err_eq_Err unwrap_or_eq_Ok

section \<open>Collecting results\<close>

text \<open>
  \<open>collect\<close> of an iterator of results into one result: the values in order, or the first error.
\<close>

fun collect :: "('a \<Rightarrow> ('e, 'b) outcome) \<Rightarrow> 'a list \<Rightarrow> ('e, 'b list) outcome" where
  "collect f [] = Ok []"
| "collect f (x # xs) = obind (f x) (\<lambda>y. obind (collect f xs) (\<lambda>ys. Ok (y # ys)))"

text \<open>
  The contract of an all-or-nothing traversal: a client that only knows these two laws can
  conclude that results are aligned with the requests, and that one failing request fails the
  whole call.
\<close>

locale all_or_nothing =
  fixes step :: "'a \<Rightarrow> ('e, 'b) outcome"
    and run :: "'a list \<Rightarrow> ('e, 'b list) outcome"
  assumes run_Nil: "run [] = Ok []"
    and run_Cons: "run (x # xs) = obind (step x) (\<lambda>y. obind (run xs) (\<lambda>ys. Ok (y # ys)))"
begin

lemma run_Ok_iff: "run xs = Ok ys \<longleftrightarrow> list_all2 (\<lambda>x y. step x = Ok y) xs ys"
proof (induction xs arbitrary: ys)
  case Nil
  show ?case by (cases ys) (simp_all add: run_Nil)
next
  case (Cons x xs)
  then show ?case by (cases ys) (auto simp: run_Cons outcome_iffs)
qed

lemma run_aligned:
  assumes "run xs = Ok ys"
  shows "length ys = length xs" and "i < length xs \<Longrightarrow> step (xs ! i) = Ok (ys ! i)"
  using assms by (auto simp: run_Ok_iff list_all2_conv_all_nth)

lemma run_Err_iff:
  "run xs = Err e \<longleftrightarrow>
     (\<exists>i < length xs. step (xs ! i) = Err e \<and> (\<forall>j < i. \<exists>y. step (xs ! j) = Ok y))"
proof (induction xs)
  case Nil
  show ?case by (simp add: run_Nil)
next
  case (Cons x xs)
  show ?case
  proof (cases "step x")
    case (Ok y)
    then have "run (x # xs) = Err e \<longleftrightarrow> run xs = Err e"
      by (cases "run xs") (auto simp: run_Cons)
    also note Cons.IH
    also have "(\<exists>i < length xs. step (xs ! i) = Err e \<and> (\<forall>j < i. \<exists>y. step (xs ! j) = Ok y))
      \<longleftrightarrow> (\<exists>i < length (x # xs). step ((x # xs) ! i) = Err e
            \<and> (\<forall>j < i. \<exists>y. step ((x # xs) ! j) = Ok y))"
      using Ok by (simp add: Ex_less_Suc2 All_less_Suc2)
    finally show ?thesis .
  qed (auto simp: run_Cons Ex_less_Suc2 All_less_Suc2)
qed

lemma run_Panic_iff:
  "run xs = Panic \<longleftrightarrow>
     (\<exists>i < length xs. step (xs ! i) = Panic \<and> (\<forall>j < i. \<exists>y. step (xs ! j) = Ok y))"
proof (induction xs)
  case Nil
  show ?case by (simp add: run_Nil)
next
  case (Cons x xs)
  show ?case
  proof (cases "step x")
    case (Ok y)
    then have "run (x # xs) = Panic \<longleftrightarrow> run xs = Panic"
      by (cases "run xs") (auto simp: run_Cons)
    also note Cons.IH
    finally show ?thesis using Ok by (simp add: Ex_less_Suc2 All_less_Suc2)
  qed (auto simp: run_Cons Ex_less_Suc2 All_less_Suc2)
qed

lemma run_no_Panic: "(\<And>x. x \<in> set xs \<Longrightarrow> step x \<noteq> Panic) \<Longrightarrow> run xs \<noteq> Panic"
  by (auto simp: run_Panic_iff)

lemma run_map_Ok: "(\<And>x. x \<in> set xs \<Longrightarrow> step x = Ok (g x)) \<Longrightarrow> run xs = Ok (map g xs)"
  by (auto simp: run_Ok_iff list_all2_conv_all_nth)

end

interpretation collect: all_or_nothing f "collect f" for f
  by unfold_locales simp_all

section \<open>Lists\<close>

lemma find_split_first:
  assumes "find P xs = Some x"
  obtains us vs where "xs = us @ x # vs" and "P x" and "\<forall>u \<in> set us. \<not> P u"
  using assms
proof (induction xs arbitrary: thesis)
  case Nil
  then show ?case by simp
next
  case (Cons y ys)
  show ?case
  proof (cases "P y")
    case True
    with Cons.prems show ?thesis by (auto intro: Cons.prems(1) [of "[]" ys])
  next
    case False
    with Cons.prems(2) have "find P ys = Some x" by simp
    then obtain us vs where "ys = us @ x # vs" "P x" "\<forall>u \<in> set us. \<not> P u"
      using Cons.IH by blast
    with False show ?thesis
      by (intro Cons.prems(1) [of "y # us" vs]) auto
  qed
qed

lemma find_append_first: "P x \<Longrightarrow> (\<And>u. u \<in> set us \<Longrightarrow> \<not> P u) \<Longrightarrow> find P (us @ x # vs) = Some x"
  by (induction us) auto

lemma find_cong_on: "(\<And>x. x \<in> set xs \<Longrightarrow> P x = Q x) \<Longrightarrow> find P xs = find Q xs"
  by (induction xs) auto

lemma find_Some_in: "find P xs = Some x \<Longrightarrow> x \<in> set xs \<and> P x"
  by (induction xs) (auto split: if_splits)

lemma map_of_rev_last:
  "map_of (rev (xs @ [(k, v)])) k = Some v"
  by simp

section \<open>Invariants of transition systems\<close>

locale invariant_system =
  fixes init :: "'s \<Rightarrow> bool" and step :: "'s \<Rightarrow> 's \<Rightarrow> bool" and holds_inv :: "'s \<Rightarrow> bool"
  assumes inv_init: "init s \<Longrightarrow> holds_inv s"
    and inv_step: "holds_inv s \<Longrightarrow> step s t \<Longrightarrow> holds_inv t"
begin

lemma reachable_inv:
  assumes "init s" and "rtranclp step s t"
  shows "holds_inv t"
  using assms(2) by (induction rule: rtranclp_induct) (auto intro: assms(1) inv_init inv_step)

end

end
