(* ===== verification/RustStr.thy ===== *)
theory RustStr
  imports Prelude "HOL-Library.Word" "HOL-Library.Char_ord"
begin

text \<open>
  The operations of Rust's \<open>str\<close>, \<open>String\<close> and integer parsing that the program calls.

  A \<open>str\<close> is its UTF-8 bytes, one HOL \<open>char\<close> each, so that \<open>len\<close>, byte slicing and
  \<open>as_bytes\<close> are what Rust counts; \<open>chars\<close> cuts the bytes into characters by the lead byte.
  The Unicode Character Database (the lower-case mapping of a non-ASCII character and the two
  properties behind the final-sigma rule) is the record \<open>ucd\<close>, a parameter: its contents depend
  on the toolchain's Unicode version. The algorithm of \<open>str::to_lowercase\<close> around it is modelled.
\<close>

section \<open>Bytes and characters\<close>

type_synonym byte = "8 word"
type_synonym bytes = "byte list"
type_synonym u32 = "32 word"
type_synonym u64 = "64 word"

definition byte_of_char :: "char \<Rightarrow> byte" where
  "byte_of_char c = word_of_nat (of_char c)"

definition char_of_byte :: "byte \<Rightarrow> char" where
  "char_of_byte b = char_of (unat b)"

definition as_bytes :: "string \<Rightarrow> bytes" where
  "as_bytes s = map byte_of_char s"

lemma of_char_less_256: "(of_char c :: nat) < 256"
proof -
  have "of_char c \<in> range (of_char :: char \<Rightarrow> nat)" by simp
  then have "of_char c \<in> {0::nat..<256}" by (simp only: range_nat_of_char)
  then show ?thesis by simp
qed

lemma char_of_byte_of_char [simp]: "char_of_byte (byte_of_char c) = c"
  using of_char_less_256 [of c]
  by (simp add: char_of_byte_def byte_of_char_def unat_of_nat take_bit_nat_eq_self)

lemma byte_of_char_of_byte [simp]: "byte_of_char (char_of_byte b) = b"
proof -
  have "unat b < 2 ^ LENGTH(8)" by (rule unsigned_less)
  then show ?thesis by (simp add: char_of_byte_def byte_of_char_def)
qed

lemma map_char_of_byte_as_bytes [simp]: "map char_of_byte (as_bytes s) = s"
  by (simp add: as_bytes_def comp_def)

lemma as_bytes_map_char_of_byte [simp]: "as_bytes (map char_of_byte bs) = bs"
  by (simp add: as_bytes_def comp_def)

lemma as_bytes_append [simp]: "as_bytes (s @ t) = as_bytes s @ as_bytes t"
  by (simp add: as_bytes_def)

lemma length_as_bytes [simp]: "length (as_bytes s) = length s"
  by (simp add: as_bytes_def)

definition is_ascii :: "char \<Rightarrow> bool" where
  "is_ascii c \<longleftrightarrow> (of_char c :: nat) < 128"

definition is_cont :: "char \<Rightarrow> bool" where
  "is_cont c \<longleftrightarrow> 128 \<le> (of_char c :: nat) \<and> (of_char c :: nat) < 192"

definition char_width :: "char \<Rightarrow> nat" where
  "char_width c =
     (let n = (of_char c :: nat) in if n < 192 then 1 else if n < 224 then 2 else if n < 240 then 3 else 4)"

function chars :: "string \<Rightarrow> string list" where
  "chars [] = []"
| "chars (c # cs) = (c # take (char_width c - 1) cs) # chars (drop (char_width c - 1) cs)"
  by pat_completeness auto
termination
  by (relation "measure length") auto

text \<open>A byte index of a \<open>str\<close> at which slicing does not panic.\<close>

definition is_char_boundary :: "string \<Rightarrow> nat \<Rightarrow> bool" where
  "is_char_boundary s i \<longleftrightarrow> i = 0 \<or> i = length s \<or> (i < length s \<and> \<not> is_cont (s ! i))"

lemma concat_chars [simp]: "concat (chars s) = s"
  by (induction s rule: chars.induct) simp_all

lemma char_width_ascii [simp]: "is_ascii c \<Longrightarrow> char_width c = 1"
  by (simp add: char_width_def is_ascii_def)

lemma chars_ascii_append: "list_all is_ascii s \<Longrightarrow> chars (s @ t) = map (\<lambda>c. [c]) s @ chars t"
  by (induction s) simp_all

lemma chars_ascii: "list_all is_ascii s \<Longrightarrow> chars s = map (\<lambda>c. [c]) s"
  using chars_ascii_append [of s "[]"] by simp

lemma unat_byte_less: "unat (b :: byte) < 256"
proof -
  have "unat b < 2 ^ LENGTH(8)" by (rule unsigned_less)
  then show ?thesis by simp
qed

section \<open>UTF-8 validation\<close>

text \<open>\<open>String::from_utf8\<close> accepts exactly the well-formed sequences of the Unicode standard:
  shortest form only, no surrogates, nothing above \<open>U+10FFFF\<close>.\<close>

definition cont_byte :: "byte \<Rightarrow> bool" where
  "cont_byte b \<longleftrightarrow> 0x80 \<le> b \<and> b \<le> 0xBF"

definition seq2 :: "byte \<Rightarrow> byte \<Rightarrow> bool" where
  "seq2 a b \<longleftrightarrow> 0xC2 \<le> a \<and> a \<le> 0xDF \<and> cont_byte b"

definition seq3 :: "byte \<Rightarrow> byte \<Rightarrow> byte \<Rightarrow> bool" where
  "seq3 a b c \<longleftrightarrow> cont_byte c \<and>
     (a = 0xE0 \<and> 0xA0 \<le> b \<and> b \<le> 0xBF
      \<or> 0xE1 \<le> a \<and> a \<le> 0xEC \<and> cont_byte b
      \<or> a = 0xED \<and> 0x80 \<le> b \<and> b \<le> 0x9F
      \<or> 0xEE \<le> a \<and> a \<le> 0xEF \<and> cont_byte b)"

definition seq4 :: "byte \<Rightarrow> byte \<Rightarrow> byte \<Rightarrow> byte \<Rightarrow> bool" where
  "seq4 a b c d \<longleftrightarrow> cont_byte c \<and> cont_byte d \<and>
     (a = 0xF0 \<and> 0x90 \<le> b \<and> b \<le> 0xBF
      \<or> 0xF1 \<le> a \<and> a \<le> 0xF3 \<and> cont_byte b
      \<or> a = 0xF4 \<and> 0x80 \<le> b \<and> b \<le> 0x8F)"

fun utf8_valid :: "bytes \<Rightarrow> bool" where
  "utf8_valid [] = True"
| "utf8_valid (a # bs) =
     (if a < 0x80 then utf8_valid bs
      else (case bs of
          [] \<Rightarrow> False
        | b # bs2 \<Rightarrow>
            if seq2 a b then utf8_valid bs2
            else (case bs2 of
                [] \<Rightarrow> False
              | c # bs3 \<Rightarrow>
                  if seq3 a b c then utf8_valid bs3
                  else (case bs3 of
                      [] \<Rightarrow> False
                    | d # bs4 \<Rightarrow> seq4 a b c d \<and> utf8_valid bs4))))"

definition from_utf8 :: "bytes \<Rightarrow> string option" where
  "from_utf8 bs = (if utf8_valid bs then Some (map char_of_byte bs) else None)"

lemma utf8_valid_ascii: "\<forall>b \<in> set bs. b < 0x80 \<Longrightarrow> utf8_valid bs"
  by (induction bs) simp_all

lemma from_utf8_as_bytes: "utf8_valid (as_bytes s) \<Longrightarrow> from_utf8 (as_bytes s) = Some s"
  by (simp add: from_utf8_def)

lemma from_utf8_eq_Some: "from_utf8 bs = Some s \<longleftrightarrow> utf8_valid bs \<and> bs = as_bytes s"
  by (auto simp: from_utf8_def)

section \<open>Trimming, searching and splitting\<close>

text \<open>The characters with the Unicode property \<open>White_Space\<close>.\<close>

definition white_space :: "string list" where
  "white_space =
     [[CHR 9], [CHR 10], [CHR 11], [CHR 12], [CHR 13], [CHR 32],
      [CHR 0xC2, CHR 0x85], [CHR 0xC2, CHR 0xA0], [CHR 0xE1, CHR 0x9A, CHR 0x80],
      [CHR 0xE2, CHR 0x80, CHR 0x80], [CHR 0xE2, CHR 0x80, CHR 0x81], [CHR 0xE2, CHR 0x80, CHR 0x82],
      [CHR 0xE2, CHR 0x80, CHR 0x83], [CHR 0xE2, CHR 0x80, CHR 0x84], [CHR 0xE2, CHR 0x80, CHR 0x85],
      [CHR 0xE2, CHR 0x80, CHR 0x86], [CHR 0xE2, CHR 0x80, CHR 0x87], [CHR 0xE2, CHR 0x80, CHR 0x88],
      [CHR 0xE2, CHR 0x80, CHR 0x89], [CHR 0xE2, CHR 0x80, CHR 0x8A], [CHR 0xE2, CHR 0x80, CHR 0xA8],
      [CHR 0xE2, CHR 0x80, CHR 0xA9], [CHR 0xE2, CHR 0x80, CHR 0xAF], [CHR 0xE2, CHR 0x81, CHR 0x9F],
      [CHR 0xE3, CHR 0x80, CHR 0x80]]"

definition is_whitespace :: "string \<Rightarrow> bool" where
  "is_whitespace ch \<longleftrightarrow> ch \<in> set white_space"

definition trim :: "string \<Rightarrow> string" where
  "trim s = concat (rev (dropWhile is_whitespace (rev (dropWhile is_whitespace (chars s)))))"

fun words_from :: "string list \<Rightarrow> string list \<Rightarrow> string list" where
  "words_from acc [] = (if acc = [] then [] else [concat (rev acc)])"
| "words_from acc (ch # cs) =
     (if is_whitespace ch
      then (if acc = [] then words_from [] cs else concat (rev acc) # words_from [] cs)
      else words_from (ch # acc) cs)"

definition split_whitespace :: "string \<Rightarrow> string list" where
  "split_whitespace s = words_from [] (chars s)"

definition trim_end_matches :: "char \<Rightarrow> string \<Rightarrow> string" where
  "trim_end_matches c s = rev (dropWhile (\<lambda>x. x = c) (rev s))"

fun split_once :: "char \<Rightarrow> string \<Rightarrow> (string \<times> string) option" where
  "split_once c [] = None"
| "split_once c (x # xs) =
     (if x = c then Some ([], xs)
      else (case split_once c xs of None \<Rightarrow> None | Some (a, b) \<Rightarrow> Some (x # a, b)))"

fun splitn :: "nat \<Rightarrow> char \<Rightarrow> string \<Rightarrow> string list" where
  "splitn 0 c s = []"
| "splitn (Suc 0) c s = [s]"
| "splitn (Suc (Suc n)) c s =
     (case split_once c s of None \<Rightarrow> [s] | Some (a, b) \<Rightarrow> a # splitn (Suc n) c b)"

definition remove_char :: "char \<Rightarrow> string \<Rightarrow> string" where
  "remove_char c s = filter (\<lambda>x. x \<noteq> c) s"

definition strip_prefix :: "string \<Rightarrow> string \<Rightarrow> string option" where
  "strip_prefix p s = (if take (length p) s = p then Some (drop (length p) s) else None)"

fun contains :: "string \<Rightarrow> string \<Rightarrow> bool" where
  "contains [] p = (p = [])"
| "contains (c # cs) p = (take (length p) (c # cs) = p \<or> contains cs p)"

lemma contains_iff: "contains s p \<longleftrightarrow> (\<exists>u v. s = u @ p @ v)"
proof (induction s)
  case Nil
  show ?case by simp
next
  case (Cons c cs)
  have "take (length p) (c # cs) = p \<longleftrightarrow> (\<exists>v. c # cs = p @ v)"
    by (metis append_eq_conv_conj append_take_drop_id)
  moreover have "(\<exists>u v. c # cs = u @ p @ v) \<longleftrightarrow>
      (\<exists>v. c # cs = p @ v) \<or> (\<exists>u v. cs = u @ p @ v)"
    by (auto simp: Cons_eq_append_conv)
  ultimately show ?case using Cons by simp
qed

lemma contains_refl [simp]: "contains s s"
  unfolding contains_iff by (metis append_Nil append_Nil2)

lemma contains_Nil [simp]: "contains s []"
  by (cases s) simp_all

lemma split_once_None: "split_once c s = None \<longleftrightarrow> c \<notin> set s"
  by (induction s) (auto split: option.splits)

lemma split_once_append [simp]: "c \<notin> set a \<Longrightarrow> split_once c (a @ c # b) = Some (a, b)"
  by (induction a) auto

lemma split_once_SomeD: "split_once c s = Some (a, b) \<Longrightarrow> s = a @ c # b \<and> c \<notin> set a"
  by (induction s arbitrary: a) (auto split: option.splits if_splits)

lemma split_once_Some: "split_once c s = Some (a, b) \<longleftrightarrow> s = a @ c # b \<and> c \<notin> set a"
  using split_once_SomeD split_once_append by metis

lemma strip_prefix_Some: "strip_prefix p s = Some r \<longleftrightarrow> s = p @ r"
  by (auto simp: strip_prefix_def) (metis append_take_drop_id)

lemma strip_prefix_append [simp]: "strip_prefix p (p @ r) = Some r"
  by (simp add: strip_prefix_Some)

lemma dropWhile_all_False: "(\<And>x. x \<in> set xs \<Longrightarrow> \<not> P x) \<Longrightarrow> dropWhile P xs = xs"
  by (cases xs) simp_all

lemma trim_no_whitespace:
  assumes "\<forall>ch \<in> set (chars s). \<not> is_whitespace ch"
  shows "trim s = s"
proof -
  have "dropWhile is_whitespace (chars s) = chars s"
    and "dropWhile is_whitespace (rev (chars s)) = rev (chars s)"
    using assms by (auto intro: dropWhile_all_False)
  then show ?thesis by (simp add: trim_def)
qed

lemma set_trim_subset: "set (trim s) \<subseteq> set s"
proof -
  have "set (rev (dropWhile is_whitespace (rev (dropWhile is_whitespace (chars s))))) \<subseteq> set (chars s)"
    by (auto dest!: set_dropWhileD)
  then have "set (trim s) \<subseteq> \<Union> (set ` set (chars s))"
    unfolding trim_def set_concat by (rule UN_mono) simp
  also have "\<dots> = set (concat (chars s))" by (simp only: set_concat)
  finally show ?thesis by simp
qed

section \<open>Parsing unsigned integers\<close>

definition is_digit :: "char \<Rightarrow> bool" where
  "is_digit c \<longleftrightarrow> 48 \<le> (of_char c :: nat) \<and> (of_char c :: nat) \<le> 57"

definition digit_val :: "char \<Rightarrow> nat" where
  "digit_val c = of_char c - 48"

definition dec_val :: "string \<Rightarrow> nat" where
  "dec_val s = foldl (\<lambda>n c. 10 * n + digit_val c) 0 s"

text \<open>\<open>from_str\<close> of an unsigned type: an optional \<open>+\<close>, at least one digit, no overflow.\<close>

definition parse_uint :: "string \<Rightarrow> 'w::len word option" where
  "parse_uint s =
     (let ds = (case s of c # r \<Rightarrow> if c = CHR ''+'' \<and> r \<noteq> [] then r else s | [] \<Rightarrow> s)
      in if ds \<noteq> [] \<and> list_all is_digit ds \<and> dec_val ds < 2 ^ LENGTH('w)
         then Some (word_of_nat (dec_val ds)) else None)"

lemma is_digit_ascii: "is_digit c \<Longrightarrow> is_ascii c"
  by (simp add: is_digit_def is_ascii_def)

lemma is_digit_not_plus [simp]: "\<not> is_digit CHR ''+''"
  by (simp add: is_digit_def)

lemma parse_uint_digits:
  assumes "ds \<noteq> []" and "list_all is_digit ds"
  shows "(parse_uint ds :: 'w::len word option) =
    (if dec_val ds < 2 ^ LENGTH('w) then Some (word_of_nat (dec_val ds)) else None)"
  using assms by (auto simp: parse_uint_def split: list.splits)

text \<open>Multiplication of fixed-width unsigned integers: with overflow checks (\<open>oc\<close>) an overflow
  panics, without them the product wraps.\<close>

definition mul_checked :: "bool \<Rightarrow> 'w::len word \<Rightarrow> 'w word \<Rightarrow> ('e, 'w word) outcome" where
  "mul_checked oc a b = (if oc \<and> 2 ^ LENGTH('w) \<le> unat a * unat b then Panic else Ok (a * b))"

lemma mul_checked_Ok:
  "mul_checked oc a b = Ok c \<longleftrightarrow> (oc \<longrightarrow> unat a * unat b < 2 ^ LENGTH('w)) \<and> c = a * b"
  for a b c :: "'w::len word"
  by (auto simp: mul_checked_def)

lemma mul_checked_release [simp]: "mul_checked False a b = Ok (a * b)"
  by (simp add: mul_checked_def)

section \<open>Lower-casing\<close>

record ucd =
  lower_map :: "string \<Rightarrow> string"
  cased_prop :: "string \<Rightarrow> bool"
  case_ignorable_prop :: "string \<Rightarrow> bool"

definition ascii_lower :: "char \<Rightarrow> char" where
  "ascii_lower c =
     (let n = (of_char c :: nat) in if 65 \<le> n \<and> n \<le> 90 then char_of (n + 32) else c)"

definition is_ascii_alpha :: "char \<Rightarrow> bool" where
  "is_ascii_alpha c \<longleftrightarrow>
     (let n = (of_char c :: nat) in (65 \<le> n \<and> n \<le> 90) \<or> (97 \<le> n \<and> n \<le> 122))"

definition char_cased :: "ucd \<Rightarrow> string \<Rightarrow> bool" where
  "char_cased U ch = (case ch of [c] \<Rightarrow> is_ascii_alpha c | _ \<Rightarrow> cased_prop U ch)"

definition char_case_ignorable :: "ucd \<Rightarrow> string \<Rightarrow> bool" where
  "char_case_ignorable U ch =
     (case ch of [c] \<Rightarrow> c \<in> set [CHR 39, CHR ''.'', CHR '':'', CHR ''^'', CHR 96]
      | _ \<Rightarrow> case_ignorable_prop U ch)"

definition char_lower :: "ucd \<Rightarrow> string \<Rightarrow> string" where
  "char_lower U ch = (case ch of [c] \<Rightarrow> [ascii_lower c] | _ \<Rightarrow> lower_map U ch)"

definition ignorable_then_cased :: "ucd \<Rightarrow> string list \<Rightarrow> bool" where
  "ignorable_then_cased U cs =
     (case dropWhile (char_case_ignorable U) cs of [] \<Rightarrow> False | ch # _ \<Rightarrow> char_cased U ch)"

text \<open>Capital sigma becomes final sigma at the end of a word and small sigma elsewhere; the
  characters before it are kept in reverse in \<open>before\<close>.\<close>

fun lower_from :: "ucd \<Rightarrow> string list \<Rightarrow> string list \<Rightarrow> string list" where
  "lower_from U before [] = []"
| "lower_from U before (ch # cs) =
     (if ch = [CHR 0xCE, CHR 0xA3]
      then (if ignorable_then_cased U before \<and> \<not> ignorable_then_cased U cs
            then [CHR 0xCF, CHR 0x82] else [CHR 0xCF, CHR 0x83])
      else char_lower U ch) # lower_from U (ch # before) cs"

definition to_lowercase :: "ucd \<Rightarrow> string \<Rightarrow> string" where
  "to_lowercase U s = concat (lower_from U [] (chars s))"

lemma lower_from_ascii: "lower_from U b (map (\<lambda>c. [c]) s) = map (\<lambda>c. [ascii_lower c]) s"
  by (induction s arbitrary: b) (simp_all add: char_lower_def)

lemma to_lowercase_ascii: "list_all is_ascii s \<Longrightarrow> to_lowercase U s = map ascii_lower s"
  by (simp add: to_lowercase_def chars_ascii lower_from_ascii concat_map_singleton)

lemma to_lowercase_Nil [simp]: "to_lowercase U [] = []"
  by (simp add: to_lowercase_def)

text \<open>Decimal rendering of a number, as \<open>format!\<close> writes a \<open>usize\<close> or \<open>u8\<close>.\<close>

fun show_nat :: "nat \<Rightarrow> string" where
  "show_nat n =
     (if n < 10 then [char_of (48 + n)] else show_nat (n div 10) @ [char_of (48 + n mod 10)])"

declare show_nat.simps [simp del]

lemma is_digit_char_of [simp]: "(n::nat) < 10 \<Longrightarrow> is_digit (char_of (48 + n))"
  by (simp add: is_digit_def)

lemma digit_val_char_of [simp]: "n < 10 \<Longrightarrow> digit_val (char_of (48 + n)) = n"
  by (simp add: digit_val_def)

lemma show_nat_digits: "list_all is_digit (show_nat n) \<and> show_nat n \<noteq> []"
proof (induction n rule: show_nat.induct)
  case (1 n)
  then show ?case by (cases "n < 10") (simp_all add: show_nat.simps [of n])
qed

lemma dec_val_snoc: "dec_val (s @ [c]) = 10 * dec_val s + digit_val c"
  by (simp add: dec_val_def)

lemma dec_val_show_nat [simp]: "dec_val (show_nat n) = n"
proof (induction n rule: show_nat.induct)
  case (1 n)
  show ?case
  proof (cases "n < 10")
    case True
    then show ?thesis using dec_val_snoc [of "[]"] by (simp add: show_nat.simps [of n] dec_val_def)
  next
    case False
    with 1 show ?thesis by (simp add: show_nat.simps [of n] dec_val_snoc)
  qed
qed

text \<open>The definitions that evaluate the string operations on a concrete input.\<close>

lemmas str_eval =
  trim_def is_whitespace_def white_space_def char_width_def is_digit_def digit_val_def dec_val_def
  parse_uint_def is_char_boundary_def is_cont_def strip_prefix_def Let_def

end
