(* ===== verification/Duration.thy ===== *)
theory Duration
  imports RustStr
begin

text \<open>
  \<open>src/duration.rs\<close>: the Go-style duration parser used for \<open>spec.syncInterval\<close> and for the
  operator's refresh intervals. The flag \<open>oc\<close> is the build profile's overflow checks: with it an
  overflowing multiplication panics (\<open>cargo run\<close>, \<open>cargo test\<close>), without it the product wraps
  (the release build of the container image). The scanner is related to a reference grammar:
  a non-empty sequence of components, each a run of digits and a unit.
\<close>

section \<open>The parser\<close>

datatype dur_unit = UNanos | UMicros | UMillis | USecs | UMins | UHours

datatype duration_error =
    EmptyDuration
  | UnexpectedChar string
  | InvalidNumber string
  | MissingUnit string
  | UnknownUnit string string

definition strip_unit :: "string \<Rightarrow> (dur_unit \<times> string) option" where
  "strip_unit s =
     (case strip_prefix ''ns'' s of Some r \<Rightarrow> Some (UNanos, r) | None \<Rightarrow>
     (case strip_prefix [CHR 0xC2, CHR 0xB5, CHR ''s''] s of Some r \<Rightarrow> Some (UMicros, r) | None \<Rightarrow>
     (case strip_prefix ''us'' s of Some r \<Rightarrow> Some (UMicros, r) | None \<Rightarrow>
     (case strip_prefix ''ms'' s of Some r \<Rightarrow> Some (UMillis, r) | None \<Rightarrow>
     (case strip_prefix ''s'' s of Some r \<Rightarrow> Some (USecs, r) | None \<Rightarrow>
     (case strip_prefix ''m'' s of Some r \<Rightarrow> Some (UMins, r) | None \<Rightarrow>
     (case strip_prefix ''h'' s of Some r \<Rightarrow> Some (UHours, r) | None \<Rightarrow> None)))))))"

text \<open>\<open>u64::saturating_add\<close>.\<close>

definition saturating_add :: "u64 \<Rightarrow> u64 \<Rightarrow> u64" where
  "saturating_add a b = (if unat a + unat b < 2 ^ 64 then a + b else - 1)"

fun unit_secs :: "bool \<Rightarrow> dur_unit \<Rightarrow> u64 \<Rightarrow> ('e, u64) outcome" where
  "unit_secs oc UNanos num = Ok 0"
| "unit_secs oc UMicros num = Ok 0"
| "unit_secs oc UMillis num = Ok 0"
| "unit_secs oc USecs num = Ok num"
| "unit_secs oc UMins num = mul_checked oc num 60"
| "unit_secs oc UHours num = mul_checked oc num 3600"

lemma strip_prefix_length: "strip_prefix p s = Some r \<Longrightarrow> length s = length p + length r"
  by (simp add: strip_prefix_Some)

lemma strip_unit_shorter: "strip_unit s = Some (u, r) \<Longrightarrow> length r < length s"
  by (auto simp: strip_unit_def strip_prefix_Some split: option.splits)

text \<open>The \<open>while\<close> loop; \<open>s\<close> is the trimmed input the error messages quote. Quoting the first
  byte of an unknown unit (\<open>&remaining[..1]\<close>) panics off a character boundary.\<close>

function parse_loop :: "bool \<Rightarrow> string \<Rightarrow> u64 \<Rightarrow> string \<Rightarrow> (duration_error, u64) outcome" where
  "parse_loop oc s total_secs remaining =
     (if remaining = [] then Ok total_secs
      else
        let digits = takeWhile is_digit remaining; rest = dropWhile is_digit remaining in
        if digits = [] then Err (UnexpectedChar s)
        else case parse_uint digits of
            None \<Rightarrow> Err (InvalidNumber s)
          | Some num \<Rightarrow>
              if rest = [] then Err (MissingUnit s)
              else case strip_unit rest of
                  None \<Rightarrow> if is_char_boundary rest 1 then Err (UnknownUnit s (take 1 rest)) else Panic
                | Some (u, r) \<Rightarrow>
                    obind (unit_secs oc u num)
                      (\<lambda>secs. parse_loop oc s (saturating_add total_secs secs) r))"
  by pat_completeness auto
termination
proof (relation "measure (\<lambda>(oc, s, t, remaining). length remaining)", goal_cases)
  case 1
  show ?case by simp
next
  case (2 oc s total_secs remaining digits rest num p u r secs)
  then have "strip_unit rest = Some (u, r)" by simp
  then have "length r < length rest" by (rule strip_unit_shorter)
  also have "\<dots> \<le> length remaining" using 2 by (simp add: length_dropWhile_le)
  finally show ?case by simp
qed

declare parse_loop.simps [simp del]

definition parse_duration :: "bool \<Rightarrow> string \<Rightarrow> (duration_error, u64) outcome" where
  "parse_duration oc input =
     (let s = trim input in if s = [] then Err EmptyDuration else parse_loop oc s 0 s)"

text \<open>The texts of the errors; \<open>dbg\<close> is \<open>{:?}\<close> of a string.\<close>

fun show_duration_error :: "(string \<Rightarrow> string) \<Rightarrow> duration_error \<Rightarrow> string" where
  "show_duration_error dbg EmptyDuration = ''empty duration string''"
| "show_duration_error dbg (UnexpectedChar s) = ''unexpected char in duration '' @ dbg s"
| "show_duration_error dbg (InvalidNumber s) = ''invalid number in duration '' @ dbg s"
| "show_duration_error dbg (MissingUnit s) = ''missing unit in duration '' @ dbg s"
| "show_duration_error dbg (UnknownUnit s u) = ''unknown unit in duration '' @ dbg s @ '': '' @ dbg u"

section \<open>The reference grammar\<close>

definition unit_table :: "(string \<times> nat) list" where
  "unit_table =
     [(''ns'', 0), ([CHR 0xC2, CHR 0xB5, CHR ''s''], 0), (''us'', 0), (''ms'', 0),
      (''s'', 1), (''m'', 60), (''h'', 3600)]"

type_synonym component = "string \<times> string \<times> nat"

definition wf_component :: "component \<Rightarrow> bool" where
  "wf_component t \<longleftrightarrow> (case t of (ds, sp, k) \<Rightarrow>
     ds \<noteq> [] \<and> list_all is_digit ds \<and> dec_val ds < 2 ^ 64 \<and> (sp, k) \<in> set unit_table)"

definition render :: "component list \<Rightarrow> string" where
  "render ts = concat (map (\<lambda>(ds, sp, k). ds @ sp) ts)"

definition component_secs :: "component \<Rightarrow> nat" where
  "component_secs t = (case t of (ds, sp, k) \<Rightarrow> dec_val ds * k)"

text \<open>The seconds of a component sequence: each component modulo the width (a wrap in the release
  build), their sum clamped at \<open>u64::MAX\<close>.\<close>

definition total_of :: "component list \<Rightarrow> nat" where
  "total_of ts = min (2 ^ 64 - 1) (sum_list (map (\<lambda>t. component_secs t mod 2 ^ 64) ts))"

text \<open>With overflow checks (\<open>oc\<close>) a component has to fit the width; without them it may be any size.\<close>

definition fits :: "bool \<Rightarrow> component \<Rightarrow> bool" where
  "fits oc t = (if oc then component_secs t < 2 ^ 64 else True)"

text \<open>What a Go duration means: its components in nanoseconds.\<close>

definition go_units :: "(string \<times> nat) list" where
  "go_units =
     [(''ns'', 1), ([CHR 0xC2, CHR 0xB5, CHR ''s''], 10 ^ 3), (''us'', 10 ^ 3), (''ms'', 10 ^ 6),
      (''s'', 10 ^ 9), (''m'', 60 * 10 ^ 9), (''h'', 3600 * 10 ^ 9)]"

definition go_nanos :: "component \<Rightarrow> nat" where
  "go_nanos t = (case t of (ds, sp, k) \<Rightarrow> dec_val ds * the (map_of go_units sp))"

definition sub_second :: "component \<Rightarrow> bool" where
  "sub_second t \<longleftrightarrow> (case t of (ds, sp, k) \<Rightarrow> the (map_of go_units sp) < 10 ^ 9)"

lemma go_nanos_secs:
  "wf_component t \<Longrightarrow> go_nanos t = component_secs t * 10 ^ 9 + (if sub_second t then go_nanos t else 0)"
  by (cases t) (auto simp: wf_component_def unit_table_def go_nanos_def go_units_def component_secs_def sub_second_def)

lemma go_nanos_total:
  "list_all wf_component ts \<Longrightarrow> sum_list (map go_nanos ts) =
     sum_list (map component_secs ts) * 10 ^ 9 + sum_list (map go_nanos (filter sub_second ts))"
proof (induction ts)
  case (Cons t ts)
  then have "go_nanos t = component_secs t * 10 ^ 9 + (if sub_second t then go_nanos t else 0)"
    by (intro go_nanos_secs) simp
  then show ?case using Cons by (cases "sub_second t") (simp_all add: algebra_simps)
qed simp

lemma total_of_fits:
  assumes "sum_list (map component_secs ts) < 2 ^ 64"
  shows "total_of ts = sum_list (map component_secs ts)" and "list_all (fits oc) ts"
proof -
  have le: "component_secs t < 2 ^ 64" if "t \<in> set ts" for t
    using member_le_sum_list [of "component_secs t" "map component_secs ts"] that assms by simp
  then have "map (\<lambda>t. component_secs t mod 2 ^ 64) ts = map component_secs ts" by simp
  then show "total_of ts = sum_list (map component_secs ts)" using assms by (simp only: total_of_def)
  show "list_all (fits oc) ts" using le by (simp add: fits_def list_all_iff)
qed

section \<open>Arithmetic of the parser\<close>

lemma unat_saturating_add: "unat (saturating_add a b) = min (2 ^ 64 - 1) (unat a + unat b)"
proof (cases "unat a + unat b < 2 ^ 64")
  case True
  then have "unat (a + b) = unat a + unat b"
    by (simp add: unat_word_ariths)
  with True show ?thesis by (simp add: saturating_add_def)
next
  case False
  then show ?thesis
    by (simp add: saturating_add_def unsigned_minus_1_eq_mask mask_eq_exp_minus_1)
qed

lemma unat_mul_u64: "unat (a * b :: u64) = unat a * unat b mod 2 ^ 64"
  by (simp add: unat_word_ariths)

lemma parse_uint_u64:
  assumes "ds \<noteq> []" and "list_all is_digit ds"
  shows "parse_uint ds = (Some num :: u64 option) \<longleftrightarrow> dec_val ds < 2 ^ 64 \<and> unat num = dec_val ds"
  by (auto simp: parse_uint_digits [OF assms] unat_of_nat take_bit_nat_eq_self word_unat_eq_iff)

text \<open>The multiplier of a unit.\<close>

fun unit_mult :: "dur_unit \<Rightarrow> nat" where
  "unit_mult UNanos = 0"
| "unit_mult UMicros = 0"
| "unit_mult UMillis = 0"
| "unit_mult USecs = 1"
| "unit_mult UMins = 60"
| "unit_mult UHours = 3600"

lemma unit_secs_Ok:
  "unit_secs oc u num = Ok secs \<longleftrightarrow>
     (oc \<longrightarrow> unat num * unit_mult u < 2 ^ 64) \<and> unat secs = unat num * unit_mult u mod 2 ^ 64"
proof -
  have "unat num < 2 ^ LENGTH(64)" by (rule unsigned_less)
  then show ?thesis by (cases u) (auto simp: mul_checked_Ok unat_mul_u64 word_unat_eq_iff)
qed

lemma unit_secs_total:
  assumes "oc \<longrightarrow> unat num * unit_mult u < 2 ^ 64"
  shows "\<exists>secs. (unit_secs oc u num :: ('e, u64) outcome) = Ok secs \<and>
    unat secs = unat num * unit_mult u mod 2 ^ 64"
proof -
  obtain secs where "(unit_secs oc u num :: ('e, u64) outcome) = Ok secs"
    using assms by (cases u) (auto simp: mul_checked_def)
  then show ?thesis by (auto simp: unit_secs_Ok)
qed

lemma strip_unit_table:
  "strip_unit s = Some (u, r) \<Longrightarrow> \<exists>sp. s = sp @ r \<and> (sp, unit_mult u) \<in> set unit_table"
  by (auto simp: strip_unit_def strip_prefix_Some unit_table_def split: option.splits)

section \<open>The scanner implements the grammar\<close>

lemma strip_unit_complete:
  assumes "(sp, k) \<in> set unit_table" and "r = [] \<or> is_digit (hd r)"
  shows "\<exists>u. strip_unit (sp @ r) = Some (u, r) \<and> unit_mult u = k"
  using assms
  by (cases r) (auto simp: unit_table_def strip_unit_def strip_prefix_def is_digit_def)

lemma unit_head:
  "(sp, k) \<in> set unit_table \<Longrightarrow> sp \<noteq> [] \<and> \<not> is_digit (hd sp)"
  by (auto simp: unit_table_def is_digit_def)

lemma digits_span:
  assumes "list_all is_digit ds" and "rest = [] \<or> \<not> is_digit (hd rest)"
  shows "takeWhile is_digit (ds @ rest) = ds" and "dropWhile is_digit (ds @ rest) = rest"
  using assms by (induction ds) (cases rest; simp)+

lemma render_Cons: "render ((ds, sp, k) # ts) = ds @ sp @ render ts"
  by (simp add: render_def)

lemma render_head: "list_all wf_component ts \<Longrightarrow> render ts = [] \<or> is_digit (hd (render ts))"
  by (cases ts) (auto simp: render_def wf_component_def hd_append list_all_iff split: list.splits)

lemma render_Nil_iff: "list_all wf_component ts \<Longrightarrow> render ts = [] \<longleftrightarrow> ts = []"
  by (cases ts) (auto simp: render_def wf_component_def)

text \<open>One turn of the loop on a component followed by more input.\<close>

lemma parse_loop_component:
  assumes wf: "wf_component (ds, sp, k)" and r: "r = [] \<or> is_digit (hd r)"
    and oc: "oc \<longrightarrow> dec_val ds * k < 2 ^ 64"
  shows "\<exists>secs. unat secs = dec_val ds * k mod 2 ^ 64 \<and>
    parse_loop oc s t (ds @ sp @ r) = parse_loop oc s (saturating_add t secs) r"
proof -
  from wf have ds: "ds \<noteq> []" "list_all is_digit ds" "dec_val ds < 2 ^ 64"
    and sp: "(sp, k) \<in> set unit_table" by (auto simp: wf_component_def)
  obtain num :: u64 where num: "parse_uint ds = Some num" "unat num = dec_val ds"
    using parse_uint_u64 [OF ds(1,2), of "word_of_nat (dec_val ds)"] ds(3)
    by (auto simp: unat_of_nat take_bit_nat_eq_self)
  obtain u where u: "strip_unit (sp @ r) = Some (u, r)" "unit_mult u = k"
    using strip_unit_complete [OF sp r] by blast
  obtain secs :: u64 where secs: "unat secs = dec_val ds * k mod 2 ^ 64"
    "(unit_secs oc u num :: (duration_error, u64) outcome) = Ok secs"
    using unit_secs_total [of oc num u] oc num(2) u(2) by metis
  have "sp \<noteq> []" and "\<not> is_digit (hd (sp @ r))"
    using unit_head [OF sp] by auto
  then have "parse_loop oc s t (ds @ sp @ r) = parse_loop oc s (saturating_add t secs) r"
    using ds num(1) u(1) secs(2)
    by (subst parse_loop.simps) (simp add: digits_span Let_def)
  with secs(1) show ?thesis by blast
qed

lemma parse_loop_render:
  assumes "list_all wf_component ts" and "oc \<longrightarrow> (\<forall>t \<in> set ts. component_secs t < 2 ^ 64)"
  shows "\<exists>d. parse_loop oc s acc (render ts) = Ok d \<and>
    unat d = min (2 ^ 64 - 1) (unat acc + sum_list (map (\<lambda>t. component_secs t mod 2 ^ 64) ts))"
  using assms
proof (induction ts arbitrary: acc)
  case Nil
  have "unat acc < 2 ^ LENGTH(64)" by (rule unsigned_less)
  then show ?case by (subst parse_loop.simps) (simp add: render_def)
next
  case (Cons t ts)
  obtain ds sp k where t: "t = (ds, sp, k)" by (cases t)
  obtain secs :: u64 where secs: "unat secs = component_secs t mod 2 ^ 64"
    "parse_loop oc s acc (render (t # ts)) = parse_loop oc s (saturating_add acc secs) (render ts)"
    using parse_loop_component [of ds sp k "render ts" oc s acc] Cons.prems render_head [of ts]
    by (auto simp: t render_Cons component_secs_def)
  from Cons.IH [of "saturating_add acc secs"] Cons.prems
  obtain d where "parse_loop oc s (saturating_add acc secs) (render ts) = Ok d"
    "unat d = min (2 ^ 64 - 1) (unat (saturating_add acc secs)
       + sum_list (map (\<lambda>t. component_secs t mod 2 ^ 64) ts))"
    by auto
  with secs show ?case by (auto simp: unat_saturating_add)
qed

lemma parse_loop_sound:
  assumes "parse_loop oc s acc rem = Ok d"
  shows "\<exists>ts. list_all wf_component ts \<and> rem = render ts \<and>
    (oc \<longrightarrow> (\<forall>t \<in> set ts. component_secs t < 2 ^ 64))"
  using assms
proof (induction oc s acc rem rule: parse_loop.induct)
  case (1 oc s acc rem)
  let ?ds = "takeWhile is_digit rem" and ?rest = "dropWhile is_digit rem"
  show ?case
  proof (cases "rem = []")
    case True
    then show ?thesis by (intro exI [of _ "[]"]) (simp add: render_def)
  next
    case False
    from "1.prems" False obtain num :: u64 and u r secs where
      steps: "?ds \<noteq> []" "parse_uint ?ds = Some num" "?rest \<noteq> []" "strip_unit ?rest = Some (u, r)"
      "(unit_secs oc u num :: (duration_error, u64) outcome) = Ok secs"
      "parse_loop oc s (saturating_add acc secs) r = Ok d"
      by (subst (asm) (2) parse_loop.simps)
        (auto simp: Let_def outcome_iffs split: if_splits option.splits)
    obtain ts where ts: "list_all wf_component ts" "r = render ts"
      "oc \<longrightarrow> (\<forall>t \<in> set ts. component_secs t < 2 ^ 64)"
      using "1.IH" [OF False refl refl steps(1,2,3) steps(4) refl steps(6)] by blast
    obtain sp where sp: "?rest = sp @ r" "(sp, unit_mult u) \<in> set unit_table"
      using strip_unit_table [OF steps(4)] by blast
    have digits: "list_all is_digit ?ds" by (auto simp: list_all_iff dest: set_takeWhileD)
    have num: "dec_val ?ds < 2 ^ 64" "unat num = dec_val ?ds"
      using steps(2) parse_uint_u64 [OF steps(1) digits, of num] by auto
    have "rem = render ((?ds, sp, unit_mult u) # ts)"
      using sp(1) ts(2) takeWhile_dropWhile_id [of is_digit rem] by (simp add: render_Cons)
    moreover have "wf_component (?ds, sp, unit_mult u)"
      using steps(1) digits num sp(2) by (simp add: wf_component_def)
    moreover have "oc \<longrightarrow> component_secs (?ds, sp, unit_mult u) < 2 ^ 64"
      using steps(5) num(2) by (auto simp: unit_secs_Ok component_secs_def)
    ultimately show ?thesis using ts by (intro exI [of _ "(?ds, sp, unit_mult u) # ts"]) simp
  qed
qed

lemma parse_loop_Ok_iff:
  "parse_loop oc s 0 rem = Ok d \<longleftrightarrow>
     (\<exists>ts. list_all wf_component ts \<and> rem = render ts \<and>
        (oc \<longrightarrow> (\<forall>t \<in> set ts. component_secs t < 2 ^ 64)) \<and> unat d = total_of ts)"
proof
  assume ok: "parse_loop oc s 0 rem = Ok d"
  then obtain ts where ts: "list_all wf_component ts" "rem = render ts"
    "oc \<longrightarrow> (\<forall>t \<in> set ts. component_secs t < 2 ^ 64)"
    using parse_loop_sound by blast
  with ok parse_loop_render [of ts oc s 0] show "\<exists>ts. list_all wf_component ts \<and> rem = render ts \<and>
      (oc \<longrightarrow> (\<forall>t \<in> set ts. component_secs t < 2 ^ 64)) \<and> unat d = total_of ts"
    by (auto simp: total_of_def)
next
  assume "\<exists>ts. list_all wf_component ts \<and> rem = render ts \<and>
      (oc \<longrightarrow> (\<forall>t \<in> set ts. component_secs t < 2 ^ 64)) \<and> unat d = total_of ts"
  then obtain ts where ts: "list_all wf_component ts" "rem = render ts"
    "oc \<longrightarrow> (\<forall>t \<in> set ts. component_secs t < 2 ^ 64)" "unat d = total_of ts" by blast
  then obtain d' where "parse_loop oc s 0 rem = Ok d'" "unat d' = unat d"
    using parse_loop_render [of ts oc s 0] by (auto simp: total_of_def)
  then show "parse_loop oc s 0 rem = Ok d" by (simp add: word_unat_eq_iff)
qed

lemma render_trim_nonempty: "s = render ts \<Longrightarrow> s \<noteq> [] \<Longrightarrow> ts \<noteq> []"
  by (auto simp: render_def)

section \<open>Panics\<close>

text \<open>Without overflow checks the only panic is quoting an unknown unit that starts with a
  multi-byte character; in particular ASCII input never panics.\<close>

lemma ascii_boundary:
  "list_all is_ascii s \<Longrightarrow> s \<noteq> [] \<Longrightarrow> is_char_boundary s 1"
  by (cases s; cases "tl s") (auto simp: is_char_boundary_def is_cont_def is_ascii_def)

lemma unit_secs_release: "unit_secs False u num \<noteq> Panic"
  by (cases u) (simp_all add: mul_checked_def)

lemma strip_unit_suffix: "strip_unit s = Some (u, r) \<Longrightarrow> \<exists>p. s = p @ r"
  using strip_unit_table by blast

definition bad_tail :: "string \<Rightarrow> bool" where
  "bad_tail s \<longleftrightarrow> (\<exists>ds r. s = ds @ r \<and> ds \<noteq> [] \<and> list_all is_digit ds \<and> dec_val ds < 2 ^ 64
     \<and> r \<noteq> [] \<and> \<not> is_digit (hd r) \<and> strip_unit r = None \<and> \<not> is_char_boundary r 1)"

lemma bad_tail_head: "bad_tail s \<Longrightarrow> s \<noteq> [] \<and> is_digit (hd s)"
  by (auto simp: bad_tail_def hd_append list_all_iff)

lemma parse_loop_bad_tail: "bad_tail rest \<Longrightarrow> parse_loop oc s acc rest = Panic"
proof -
  assume "bad_tail rest"
  then obtain ds r where r: "rest = ds @ r" "ds \<noteq> []" "list_all is_digit ds" "dec_val ds < 2 ^ 64"
    "r \<noteq> []" "\<not> is_digit (hd r)" "strip_unit r = None" "\<not> is_char_boundary r 1"
    by (auto simp: bad_tail_def)
  moreover have "(parse_uint ds :: u64 option) \<noteq> None"
    using r by (simp add: parse_uint_digits)
  ultimately show ?thesis
    by (subst parse_loop.simps) (auto simp: digits_span Let_def)
qed

lemma parse_loop_prefix:
  assumes "list_all wf_component ts" and "rest \<noteq> []" and "is_digit (hd rest)"
  shows "\<exists>acc'. parse_loop False s acc (render ts @ rest) = parse_loop False s acc' rest"
  using assms(1)
proof (induction ts arbitrary: acc)
  case Nil
  show ?case by (auto simp: render_def)
next
  case (Cons t ts)
  obtain ds sp k where t: "t = (ds, sp, k)" by (cases t)
  have "render ts @ rest = [] \<or> is_digit (hd (render ts @ rest))"
    using render_head [of ts] Cons.prems assms(2,3) by (auto simp: hd_append)
  then obtain secs where
    "parse_loop False s acc (ds @ sp @ render ts @ rest)
       = parse_loop False s (saturating_add acc secs) (render ts @ rest)"
    using parse_loop_component [of ds sp k "render ts @ rest" False s acc] Cons.prems by (auto simp: t)
  moreover obtain acc' where
    "parse_loop False s (saturating_add acc secs) (render ts @ rest) = parse_loop False s acc' rest"
    using Cons.IH [of "saturating_add acc secs"] Cons.prems by auto
  ultimately show ?case by (auto simp: t render_Cons)
qed

lemma parse_loop_panic_tail:
  "parse_loop False s acc rem = Panic \<Longrightarrow>
     \<exists>ts rest. list_all wf_component ts \<and> bad_tail rest \<and> rem = render ts @ rest"
proof (induction False s acc rem rule: parse_loop.induct)
  case (1 s acc rem)
  let ?ds = "takeWhile is_digit rem" and ?rest = "dropWhile is_digit rem"
  have span: "rem = ?ds @ ?rest" by simp
  have digits: "list_all is_digit ?ds" by (auto simp: list_all_iff dest: set_takeWhileD)
  from "1.prems" consider
      num where "?ds \<noteq> []" "parse_uint ?ds = Some (num :: u64)" "?rest \<noteq> []" "strip_unit ?rest = None"
        "\<not> is_char_boundary ?rest 1"
    | num u r where "rem \<noteq> []" "?ds \<noteq> []" "parse_uint ?ds = Some (num :: u64)" "?rest \<noteq> []"
        "strip_unit ?rest = Some (u, r)"
        "obind (unit_secs False u num) (\<lambda>secs. parse_loop False s (saturating_add acc secs) r) = Panic"
    by (subst (asm) parse_loop.simps) (auto simp: Let_def split: if_splits option.splits)
  then show ?case
  proof cases
    case (1 num)
    then have "bad_tail rem"
      unfolding bad_tail_def using digits span hd_dropWhile [of is_digit rem]
        parse_uint_u64 [OF 1(1) digits, of num]
      by (intro exI [of _ ?ds] exI [of _ ?rest]) auto
    then show ?thesis by (intro exI [of _ "[]"] exI [of _ rem]) (simp add: render_def)
  next
    case (2 num u r)
    then obtain secs where "(unit_secs False u num :: (duration_error, u64) outcome) = Ok secs"
      "parse_loop False s (saturating_add acc secs) r = Panic"
      by (auto simp: outcome_iffs unit_secs_release)
    then obtain ts rest where ts: "list_all wf_component ts" "bad_tail rest" "r = render ts @ rest"
      using "1.hyps" [OF 2(1) refl refl 2(2,3,4,5) refl] by blast
    obtain sp where sp: "?rest = sp @ r" "(sp, unit_mult u) \<in> set unit_table"
      using strip_unit_table [OF 2(5)] by blast
    have "wf_component (?ds, sp, unit_mult u)"
      using 2(2) digits sp(2) parse_uint_u64 [OF 2(2) digits, of num] 2(3)
      by (auto simp: wf_component_def)
    moreover have "rem = render ((?ds, sp, unit_mult u) # ts) @ rest"
      using span sp(1) ts(3) by (simp add: render_Cons)
    ultimately show ?thesis using ts by (intro exI [of _ "(?ds, sp, unit_mult u) # ts"]) auto
  qed
qed

section \<open>Properties\<close>

lemma parse_duration_Ok:
  "parse_duration oc input = Ok d \<longleftrightarrow>
     (\<exists>ts. ts \<noteq> [] \<and> list_all wf_component ts \<and> trim input = render ts \<and>
        list_all (fits oc) ts \<and> unat d = total_of ts)"
proof (cases "trim input = []")
  case True
  then show ?thesis by (auto simp: parse_duration_def dest: render_Nil_iff)
next
  case False
  then have "parse_duration oc input = Ok d \<longleftrightarrow>
      (\<exists>ts. list_all wf_component ts \<and> trim input = render ts \<and>
        (oc \<longrightarrow> (\<forall>t \<in> set ts. component_secs t < 2 ^ 64)) \<and> unat d = total_of ts)"
    by (simp add: parse_duration_def Let_def parse_loop_Ok_iff)
  moreover have "trim input = render ts \<Longrightarrow> ts \<noteq> []" for ts
    using False by (auto simp: render_def)
  moreover have "list_all (fits oc) ts \<longleftrightarrow> (oc \<longrightarrow> (\<forall>t \<in> set ts. component_secs t < 2 ^ 64))" for ts
    by (simp add: fits_def list_all_iff)
  ultimately show ?thesis by blast
qed

text \<open>C25. The duration parser accepts exactly the non-empty component sequences of the grammar (after
  trimming). Its result adds up the components given in seconds, minutes and hours, clamped at the
  maximum of \<open>u64\<close>; components in \<open>ns\<close>, \<open>us\<close> and \<open>ms\<close> are accepted and count for nothing. With overflow
  checks no component may overflow; without them each counts modulo \<open>2^64\<close>. So when nothing overflows
  the result falls short of the Go duration the input denotes by exactly the sub-second
  components, however large they are (\<open>1m5000ms\<close> is 60 seconds).\<close>

theorem parse_duration_grammar:
  "(parse_duration oc input = Ok d \<longleftrightarrow>
     (\<exists>ts. ts \<noteq> [] \<and> list_all wf_component ts \<and> trim input = render ts \<and>
        list_all (fits oc) ts \<and> unat d = total_of ts))
   \<and> (\<forall>ts. parse_duration oc input = Ok d \<and> list_all wf_component ts \<and> trim input = render ts
        \<and> sum_list (map component_secs ts) < 2 ^ 64 \<longrightarrow>
        sum_list (map go_nanos ts) = unat d * 10 ^ 9 + sum_list (map go_nanos (filter sub_second ts)))"
proof (rule conjI [OF parse_duration_Ok], intro allI impI)
  fix ts
  assume *: "parse_duration oc input = Ok d \<and> list_all wf_component ts \<and> trim input = render ts
    \<and> sum_list (map component_secs ts) < 2 ^ 64"
  define d' :: u64 where "d' = of_nat (total_of ts)"
  have d': "unat d' = total_of ts"
    unfolding d'_def by (simp add: unat_of_nat take_bit_nat_eq_self total_of_def)
  have "ts \<noteq> []"
  proof
    assume "ts = []"
    then have "trim input = []" using * by (simp add: render_def)
    with * show False by (simp add: parse_duration_def)
  qed
  then have "parse_duration oc input = Ok d'"
    unfolding parse_duration_Ok using * d' total_of_fits(2) by blast
  then have "unat d = total_of ts" using * d' by simp
  with * show "sum_list (map go_nanos ts) = unat d * 10 ^ 9 + sum_list (map go_nanos (filter sub_second ts))"
    using go_nanos_total [of ts] total_of_fits(1) by simp
qed

theorem parse_duration_grammar_witness:
  "parse_duration True ''1m5000ms'' = Ok 60
   \<and> sum_list (map go_nanos [(''1'', ''m'', 60), (''5000'', ''ms'', 0)]) = 60 * 10 ^ 9 + 5000 * 10 ^ 6"
proof -
  let ?ts = "[(''1'', ''m'', 60), (''5000'', ''ms'', 0)] :: component list"
  have parse: "parse_duration True ''1m5000ms'' = Ok 60"
    by (simp add: parse_duration_def parse_loop.simps strip_unit_def str_eval mul_checked_def saturating_add_def)
  have digits: "dec_val ''1'' = 1" "dec_val ''5000'' = 5000" by (simp_all add: str_eval)
  have "list_all wf_component ?ts" by (simp add: wf_component_def unit_table_def digits str_eval)
  moreover have "trim ''1m5000ms'' = render ?ts" by (simp add: render_def str_eval)
  moreover have "sum_list (map component_secs ?ts) < 2 ^ 64" by (simp add: component_secs_def digits)
  ultimately have "sum_list (map go_nanos ?ts) = unat (60 :: u64) * 10 ^ 9 + sum_list (map go_nanos (filter sub_second ?ts))"
    using parse_duration_grammar [of True "''1m5000ms''" 60] parse by blast
  then show ?thesis using parse by (simp add: go_nanos_def go_units_def sub_second_def digits)
qed

text \<open>The release build's parser panics exactly on inputs that are well-formed up to a last
  number followed by an unknown unit whose first character is not ASCII (the error message slices
  one byte off it).\<close>

theorem parse_duration_panic_iff:
  "parse_duration False input = Panic \<longleftrightarrow>
     (\<exists>ts rest. list_all wf_component ts \<and> bad_tail rest \<and> trim input = render ts @ rest)"
proof
  assume "parse_duration False input = Panic"
  then show "\<exists>ts rest. list_all wf_component ts \<and> bad_tail rest \<and> trim input = render ts @ rest"
    using parse_loop_panic_tail by (auto simp: parse_duration_def Let_def split: if_splits)
next
  assume "\<exists>ts rest. list_all wf_component ts \<and> bad_tail rest \<and> trim input = render ts @ rest"
  then obtain ts rest where *: "list_all wf_component ts" "bad_tail rest" "trim input = render ts @ rest"
    by blast
  with bad_tail_head obtain acc' where
    "parse_loop False (trim input) 0 (render ts @ rest) = parse_loop False (trim input) acc' rest"
    using parse_loop_prefix by blast
  with * bad_tail_head [of rest] show "parse_duration False input = Panic"
    by (auto simp: parse_duration_def parse_loop_bad_tail)
qed

text \<open>The documentation lists the micro sign as a unit prefix, but with a Greek small mu in its
  place (\<open>5\<mu>s\<close>) the parser panics in every build instead of reporting an unknown unit.\<close>

theorem parse_duration_greek_mu_panics:
  "parse_duration oc (''5'' @ [CHR 0xCE, CHR 0xBC] @ ''s'') = Panic"
  by (simp add: parse_duration_def parse_loop.simps strip_unit_def str_eval)

text \<open>The accumulated seconds saturate, but a single large component wraps in the release
  build: this number of hours (just above what fits) is accepted as 3584 seconds.\<close>

theorem parse_duration_release_wraps:
  "parse_duration False ''5124095576030432h'' = Ok 3584"
  by (simp add: parse_duration_def parse_loop.simps strip_unit_def str_eval mul_checked_def saturating_add_def)

end
