(* ===== verification/Crypto.thy ===== *)
theory Crypto
  imports RustStr
begin

text \<open>
  \<open>src/vault/crypto.rs\<close>: Bitwarden cipher strings, AES-CBC with HMAC, PKCS#7 padding, key
  derivation and the unwrapping of the user's, the organizations' and the RSA private key.

  The cryptographic crates and the Base64 engine are not under \<open>src/\<close>: they are the fields of
  \<open>prims\<close>, an argument of every operation that calls them. \<open>'rsa\<close> is the type of parsed RSA
  private keys. Texts of foreign errors are the strings those crates return.
\<close>

section \<open>Primitives, keys and errors\<close>

datatype oaep_hash = OaepSha1 | OaepSha256

record 'rsa prims =
  b64_decode :: "string \<Rightarrow> string + bytes"
  b64_encode :: "bytes \<Rightarrow> string"
  aes256_cbc_decrypt :: "bytes \<Rightarrow> bytes \<Rightarrow> bytes \<Rightarrow> string + bytes"
  aes256_cbc_encrypt :: "bytes \<Rightarrow> bytes \<Rightarrow> bytes \<Rightarrow> bytes"
  hmac_sha256 :: "bytes \<Rightarrow> bytes \<Rightarrow> bytes"
  pbkdf2_hmac_sha256 :: "bytes \<Rightarrow> bytes \<Rightarrow> u32 \<Rightarrow> nat \<Rightarrow> bytes"
  argon2_params :: "u32 \<Rightarrow> u32 \<Rightarrow> u32 \<Rightarrow> nat \<Rightarrow> string option"
  argon2id_hash :: "u32 \<Rightarrow> u32 \<Rightarrow> u32 \<Rightarrow> nat \<Rightarrow> bytes \<Rightarrow> bytes \<Rightarrow> string + bytes"
  hkdf_from_prk :: "bytes \<Rightarrow> bytes option"
  hkdf_expand :: "bytes \<Rightarrow> bytes \<Rightarrow> nat \<Rightarrow> bytes option"
  rsa_oaep_decrypt :: "oaep_hash \<Rightarrow> 'rsa \<Rightarrow> bytes \<Rightarrow> string + bytes"
  rsa_from_pkcs8_der :: "bytes \<Rightarrow> string + 'rsa"
  utf8_error_text :: "bytes \<Rightarrow> string"

definition ENC_TYPE_AES_CBC256_B64 :: byte where
  "ENC_TYPE_AES_CBC256_B64 = 0"

definition ENC_TYPE_AES_CBC256_HMAC_SHA256_B64 :: byte where
  "ENC_TYPE_AES_CBC256_HMAC_SHA256_B64 = 2"

definition ENC_TYPE_RSA2048_OAEP_SHA256_B64 :: byte where
  "ENC_TYPE_RSA2048_OAEP_SHA256_B64 = 3"

definition ENC_TYPE_RSA2048_OAEP_SHA1_B64 :: byte where
  "ENC_TYPE_RSA2048_OAEP_SHA1_B64 = 4"

definition KDF_PBKDF2 :: u32 where
  "KDF_PBKDF2 = 0"

definition KDF_ARGON2ID :: u32 where
  "KDF_ARGON2ID = 1"

lemmas enc_type_defs =
  ENC_TYPE_AES_CBC256_B64_def ENC_TYPE_AES_CBC256_HMAC_SHA256_B64_def
  ENC_TYPE_RSA2048_OAEP_SHA256_B64_def ENC_TYPE_RSA2048_OAEP_SHA1_B64_def

datatype crypto_error =
    EmptyInput
  | Format string
  | UnsupportedType byte
  | Base64 string
  | InvalidIv nat
  | InvalidCiphertext nat
  | MacKeyMissing
  | MacMismatch
  | Pkcs7 string
  | NotRsa byte
  | Rsa string
  | Pkcs8 string
  | NotRsaKey
  | OrgKeyLength nat
  | SymKeyLength nat
  | Kdf string
  | Hkdf
  | EmptyKey

record symmetric_key =
  enc_key :: bytes
  mac_key :: bytes

record cipher_string =
  enc_type :: byte
  iv :: bytes
  ct :: bytes
  mac :: bytes

definition show_byte :: "byte \<Rightarrow> string" where
  "show_byte b = show_nat (unat b)"

text \<open>\<open>Display\<close> of the errors.\<close>

fun show_crypto_error :: "crypto_error \<Rightarrow> string" where
  "show_crypto_error EmptyInput = ''empty cipher string''"
| "show_crypto_error (Format s) = ''invalid cipher string format: '' @ s"
| "show_crypto_error (UnsupportedType b) = ''unsupported encryption type: '' @ show_byte b"
| "show_crypto_error (Base64 e) = ''base64 decode error: '' @ e"
| "show_crypto_error (InvalidIv n) = ''invalid IV length: expected 16, got '' @ show_nat n"
| "show_crypto_error (InvalidCiphertext n) = ''invalid ciphertext length: '' @ show_nat n"
| "show_crypto_error MacKeyMissing = ''MAC key required for type 2 decryption''"
| "show_crypto_error MacMismatch = ''MAC verification failed''"
| "show_crypto_error (Pkcs7 s) = ''PKCS7 unpad error: '' @ s"
| "show_crypto_error (NotRsa b) = ''not an RSA cipher type: '' @ show_byte b"
| "show_crypto_error (Rsa e) = ''RSA decrypt error: '' @ e"
| "show_crypto_error (Pkcs8 s) = ''PKCS8 parse error: '' @ s"
| "show_crypto_error NotRsaKey = ''private key is not RSA''"
| "show_crypto_error (OrgKeyLength n) = ''unexpected org key length: expected 64, got '' @ show_nat n"
| "show_crypto_error (SymKeyLength n) = ''unexpected symmetric key length: expected 64, got '' @ show_nat n"
| "show_crypto_error (Kdf s) = ''KDF error: '' @ s"
| "show_crypto_error Hkdf = ''HKDF expand error''"
| "show_crypto_error EmptyKey = ''empty encrypted key''"

lemma symmetric_key_eta [simp]: "\<lparr>enc_key = enc_key k, mac_key = mac_key k\<rparr> = k"
  by (cases k) simp

section \<open>Parsing cipher strings\<close>

definition decode64 :: "'rsa prims \<Rightarrow> string \<Rightarrow> (crypto_error, bytes) outcome" where
  "decode64 P s = map_err Base64 (of_sum (b64_decode P s))"

definition parse :: "'rsa prims \<Rightarrow> string \<Rightarrow> (crypto_error, cipher_string) outcome" where
  "parse P s =
     (if s = [] then Err EmptyInput
      else obind (ok_or (Format ''missing type separator'') (split_once CHR ''.'' s)) (\<lambda>(type_str, rest).
        obind (ok_or (Format (''invalid type: '' @ type_str)) (parse_uint type_str)) (\<lambda>t.
          if t = ENC_TYPE_AES_CBC256_B64 then
            (let parts = splitn 3 CHR ''|'' rest in
             if length parts \<noteq> 2
             then Err (Format (''AesCbc256_B64 expects 2 parts, got '' @ show_nat (length parts)))
             else obind (decode64 P (parts ! 0)) (\<lambda>v.
                  obind (decode64 P (parts ! 1)) (\<lambda>c.
                    Ok \<lparr>enc_type = t, iv = v, ct = c, mac = []\<rparr>)))
          else if t = ENC_TYPE_AES_CBC256_HMAC_SHA256_B64 then
            (let parts = splitn 4 CHR ''|'' rest in
             if length parts \<noteq> 3
             then Err (Format (''AesCbc256_HmacSha256_B64 expects 3 parts, got '' @ show_nat (length parts)))
             else obind (decode64 P (parts ! 0)) (\<lambda>v.
                  obind (decode64 P (parts ! 1)) (\<lambda>c.
                  obind (decode64 P (parts ! 2)) (\<lambda>m.
                    Ok \<lparr>enc_type = t, iv = v, ct = c, mac = m\<rparr>))))
          else if t = ENC_TYPE_RSA2048_OAEP_SHA256_B64 \<or> t = ENC_TYPE_RSA2048_OAEP_SHA1_B64 then
            (let raw = remove_char CHR ''|'' rest in
             obind (decode64 P raw) (\<lambda>c. Ok \<lparr>enc_type = t, iv = [], ct = c, mac = []\<rparr>))
          else Err (UnsupportedType t))))"

section \<open>Padding\<close>

definition pkcs7_unpad :: "bytes \<Rightarrow> nat \<Rightarrow> (crypto_error, bytes) outcome" where
  "pkcs7_unpad data block_size =
     (if data = [] then Err (Pkcs7 ''empty data'')
      else if length data mod block_size \<noteq> 0 then Err (Pkcs7 ''data not block-aligned'')
      else
        let pad_len = unat (last data) in
        if pad_len = 0 \<or> block_size < pad_len
        then Err (Pkcs7 (''invalid padding length: '' @ show_nat pad_len))
        else
          let pad_start = length data - pad_len in
          if \<not> list_all (\<lambda>b. unat b = pad_len) (drop pad_start data)
          then Err (Pkcs7 ''invalid PKCS7 padding bytes'')
          else Ok (take pad_start data))"

text \<open>The padding the encrypting side applies (the test module's helper spells it out).\<close>

definition pkcs7_pad :: "bytes \<Rightarrow> bytes" where
  "pkcs7_pad plaintext =
     (let pad_len = 16 - length plaintext mod 16
      in plaintext @ replicate pad_len (word_of_nat pad_len))"

section \<open>Decryption\<close>

definition verify_mac :: "'rsa prims \<Rightarrow> cipher_string \<Rightarrow> symmetric_key \<Rightarrow> (crypto_error, unit) outcome" where
  "verify_mac P cs key =
     (if enc_type cs = ENC_TYPE_AES_CBC256_HMAC_SHA256_B64
      then (if mac_key key = [] then Err MacKeyMissing
            else if hmac_sha256 P (mac_key key) (iv cs @ ct cs) \<noteq> mac cs then Err MacMismatch
            else Ok ())
      else Ok ())"

definition decrypt :: "'rsa prims \<Rightarrow> cipher_string \<Rightarrow> symmetric_key \<Rightarrow> (crypto_error, bytes) outcome" where
  "decrypt P cs key =
     (if length (iv cs) \<noteq> 16 then Err (InvalidIv (length (iv cs)))
      else if ct cs = [] \<or> length (ct cs) mod 16 \<noteq> 0 then Err (InvalidCiphertext (length (ct cs)))
      else obind (verify_mac P cs key) (\<lambda>_.
        if length (enc_key key) \<noteq> 32 then Err (Format ''enc_key must be 32 bytes'')
        else obind (map_err (\<lambda>e. Format (''AES-CBC decrypt: '' @ e))
                      (of_sum (aes256_cbc_decrypt P (enc_key key) (iv cs) (ct cs))))
               (\<lambda>buf. pkcs7_unpad buf 16)))"

definition decrypt_to_string ::
    "'rsa prims \<Rightarrow> cipher_string \<Rightarrow> symmetric_key \<Rightarrow> (crypto_error, string) outcome" where
  "decrypt_to_string P cs key =
     obind (decrypt P cs key) (\<lambda>bs.
       ok_or (Format (''UTF-8 decode: '' @ utf8_error_text P bs)) (from_utf8 bs))"

definition decrypt_rsa :: "'rsa prims \<Rightarrow> cipher_string \<Rightarrow> 'rsa \<Rightarrow> (crypto_error, bytes) outcome" where
  "decrypt_rsa P cs private_key =
     (if enc_type cs = ENC_TYPE_RSA2048_OAEP_SHA256_B64
      then map_err Rsa (of_sum (rsa_oaep_decrypt P OaepSha256 private_key (ct cs)))
      else if enc_type cs = ENC_TYPE_RSA2048_OAEP_SHA1_B64
      then map_err Rsa (of_sum (rsa_oaep_decrypt P OaepSha1 private_key (ct cs)))
      else Err (NotRsa (enc_type cs)))"

definition decrypt_str :: "'rsa prims \<Rightarrow> string \<Rightarrow> symmetric_key \<Rightarrow> (crypto_error, string) outcome" where
  "decrypt_str P s key =
     (if s = [] then Ok [] else obind (parse P s) (\<lambda>cs. decrypt_to_string P cs key))"

section \<open>Key derivation and unwrapping\<close>

definition make_master_key ::
    "bool \<Rightarrow> ucd \<Rightarrow> 'rsa prims \<Rightarrow> string \<Rightarrow> string \<Rightarrow> u32 \<Rightarrow> u32 \<Rightarrow> u32 option \<Rightarrow> u32 option
       \<Rightarrow> (crypto_error, bytes) outcome" where
  "make_master_key oc U P password email kdf_type iterations memory_mib parallelism =
     (let salt = to_lowercase U (trim email) in
      if kdf_type = KDF_PBKDF2 then
        (if iterations < 1
         then Err (Kdf (''PBKDF2 iterations must be >= 1, got '' @ show_nat (unat iterations)))
         else Ok (pbkdf2_hmac_sha256 P (as_bytes password) (as_bytes salt) iterations 32))
      else if kdf_type = KDF_ARGON2ID then
        obind (mul_checked oc (case memory_mib of Some m \<Rightarrow> m | None \<Rightarrow> 64) 1024) (\<lambda>mem_kib.
          let par = (case parallelism of Some p \<Rightarrow> p | None \<Rightarrow> 4) in
          case argon2_params P mem_kib iterations par 32 of
            Some e \<Rightarrow> Err (Kdf (''argon2 params: '' @ e))
          | None \<Rightarrow>
              map_err (\<lambda>e. Kdf (''argon2 hash: '' @ e))
                (of_sum (argon2id_hash P mem_kib iterations par 32 (as_bytes password) (as_bytes salt))))
      else Err (Kdf (''unsupported KDF type: '' @ show_nat (unat kdf_type))))"

definition hash_password :: "'rsa prims \<Rightarrow> string \<Rightarrow> bytes \<Rightarrow> string" where
  "hash_password P password master_key =
     b64_encode P (pbkdf2_hmac_sha256 P master_key (as_bytes password) 1 32)"

definition stretch_key :: "'rsa prims \<Rightarrow> bytes \<Rightarrow> (crypto_error, symmetric_key) outcome" where
  "stretch_key P master_key =
     obind (ok_or Hkdf (hkdf_from_prk P master_key)) (\<lambda>hk.
     obind (ok_or Hkdf (hkdf_expand P hk (as_bytes ''enc'') 32)) (\<lambda>e.
     obind (ok_or Hkdf (hkdf_expand P hk (as_bytes ''mac'') 32)) (\<lambda>m.
       Ok \<lparr>enc_key = e, mac_key = m\<rparr>)))"

text \<open>A 64-byte key is the encryption key followed by the MAC key.\<close>

definition split_key :: "bytes \<Rightarrow> symmetric_key" where
  "split_key d = \<lparr>enc_key = take 32 d, mac_key = drop 32 d\<rparr>"

definition decrypt_symmetric_key :: "'rsa prims \<Rightarrow> string \<Rightarrow> bytes \<Rightarrow> (crypto_error, symmetric_key) outcome" where
  "decrypt_symmetric_key P encrypted_key master_key =
     (if encrypted_key = [] then Err EmptyKey
      else obind (parse P encrypted_key) (\<lambda>cs.
        obind (stretch_key P master_key) (\<lambda>stretched.
        obind (case decrypt P cs stretched of
            Ok d \<Rightarrow> Ok d
          | Panic \<Rightarrow> Panic
          | Err _ \<Rightarrow>
              map_err (\<lambda>_. Format ''decrypt symmetric key (tried stretched + legacy)'')
                (decrypt P cs \<lparr>enc_key = master_key, mac_key = []\<rparr>))
          (\<lambda>decrypted.
            if length decrypted \<noteq> 64 then Err (SymKeyLength (length decrypted))
            else Ok (split_key decrypted)))))"

definition decrypt_private_key :: "'rsa prims \<Rightarrow> string \<Rightarrow> symmetric_key \<Rightarrow> (crypto_error, 'rsa) outcome" where
  "decrypt_private_key P encrypted_private_key sym_key =
     (if encrypted_private_key = [] then Err EmptyKey
      else obind (parse P encrypted_private_key) (\<lambda>cs.
        obind (decrypt P cs sym_key) (\<lambda>der_bytes.
          map_err Pkcs8 (of_sum (rsa_from_pkcs8_der P der_bytes)))))"

definition decrypt_org_key :: "'rsa prims \<Rightarrow> string \<Rightarrow> 'rsa \<Rightarrow> (crypto_error, symmetric_key) outcome" where
  "decrypt_org_key P encrypted_org_key private_key =
     (if encrypted_org_key = [] then Err EmptyKey
      else obind (parse P encrypted_org_key) (\<lambda>cs.
        obind (decrypt_rsa P cs private_key) (\<lambda>decrypted.
          if length decrypted \<noteq> 64 then Err (OrgKeyLength (length decrypted))
          else Ok (split_key decrypted))))"

text \<open>The encrypting side of a type 2 string, as the test modules build one.\<close>

definition make_type2_cipherstring :: "'rsa prims \<Rightarrow> bytes \<Rightarrow> bytes \<Rightarrow> bytes \<Rightarrow> bytes \<Rightarrow> string" where
  "make_type2_cipherstring P ek mk v plaintext =
     (let padded = pkcs7_pad plaintext;
          c = aes256_cbc_encrypt P ek v padded;
          m = hmac_sha256 P mk (v @ c)
      in ''2.'' @ b64_encode P v @ ''|'' @ b64_encode P c @ ''|'' @ b64_encode P m)"

section \<open>Padding laws\<close>

text \<open>
  What the decryption side relies on: unpadding inverts padding, and only padded data unpads.
\<close>

locale padding_scheme =
  fixes pad :: "'b list \<Rightarrow> 'b list"
    and unpad :: "'b list \<Rightarrow> ('e, 'b list) outcome"
  assumes unpad_pad: "unpad (pad x) = Ok x"
    and unpad_Ok: "unpad d = Ok x \<Longrightarrow> d = pad x"
begin

lemma unpad_iff: "unpad d = Ok x \<longleftrightarrow> d = pad x"
  using unpad_pad unpad_Ok by blast

lemma pad_inj: "pad x = pad y \<longleftrightarrow> x = y"
  by (metis unpad_pad outcome.inject(1))

lemma unpad_cipher:
  assumes "dec (enc (pad x)) = Inr (pad x)"
  shows "obind (of_sum (dec (enc (pad x)))) unpad = Ok x"
  using assms by (simp add: unpad_pad)

end

lemma pad_len_bounds: "1 \<le> 16 - n mod 16" "16 - n mod 16 \<le> (16::nat)" "(n + (16 - n mod 16)) mod 16 = 0"
proof -
  have "n mod 16 < 16" by simp
  then show "1 \<le> 16 - n mod 16" "16 - n mod 16 \<le> (16::nat)" by auto
  show "(n + (16 - n mod 16)) mod 16 = 0" by presburger
qed

lemma pad_len_unique:
  assumes "(n + p) mod 16 = 0" and "0 < p" and "p \<le> 16"
  shows "16 - n mod 16 = (p::nat)"
proof -
  from assms(1) have "16 dvd n mod 16 + p"
    by (simp add: mod_add_left_eq dvd_eq_mod_eq_0)
  then obtain q where q: "n mod 16 + p = 16 * q" by (auto elim: dvdE)
  have "n mod 16 < 16" by simp
  with q assms(2,3) have "q = 1" by linarith
  with q show ?thesis by simp
qed

lemma unat_small_byte: "n < 256 \<Longrightarrow> unat (word_of_nat n :: byte) = n"
  by (simp add: unat_of_nat take_bit_nat_eq_self)

lemma pkcs7_unpad_pad: "pkcs7_unpad (pkcs7_pad x) 16 = Ok x"
proof -
  define p where "p = 16 - length x mod 16"
  have p: "1 \<le> p" "p \<le> 16" "(length x + p) mod 16 = 0"
    using pad_len_bounds [of "length x"] by (simp_all add: p_def)
  have pad: "pkcs7_pad x = x @ replicate p (word_of_nat p)"
    by (simp add: pkcs7_pad_def p_def Let_def)
  have "unat (word_of_nat p :: byte) = p" using p by (simp add: unat_small_byte)
  then show ?thesis using p by (simp add: pkcs7_unpad_def pad Let_def list_all_iff)
qed

lemma pkcs7_unpad_Ok:
  assumes "pkcs7_unpad d 16 = Ok x"
  shows "d = pkcs7_pad x"
proof -
  define p where "p = unat (last d)"
  from assms have d: "d \<noteq> []" "length d mod 16 = 0" "0 < p" "p \<le> 16"
    "list_all (\<lambda>b. unat b = p) (drop (length d - p) d)" "x = take (length d - p) d"
    by (auto simp: pkcs7_unpad_def p_def Let_def split: if_splits)
  from d(1,2) have "16 \<le> length d"
    by (metis dvd_imp_le length_greater_0_conv mod_eq_0_iff_dvd)
  with d(4,6) have len: "length x = length d - p" "length (drop (length d - p) d) = p" by auto
  have "drop (length d - p) d = replicate p (word_of_nat p)"
    using d(5) len(2) by (intro replicate_eqI) (auto simp: list_all_iff)
  then have "d = x @ replicate p (word_of_nat p)"
    using d(6) by (metis append_take_drop_id)
  moreover have "16 - length x mod 16 = p"
    using len(1) d(2,3,4) \<open>16 \<le> length d\<close> by (intro pad_len_unique) simp_all
  ultimately show ?thesis by (simp add: pkcs7_pad_def Let_def)
qed

interpretation pkcs7: padding_scheme pkcs7_pad "\<lambda>d. pkcs7_unpad d 16"
  by unfold_locales (simp_all add: pkcs7_unpad_pad pkcs7_unpad_Ok)

lemma length_pkcs7_pad: "length (pkcs7_pad x) mod 16 = 0" "pkcs7_pad x \<noteq> []"
  using pad_len_bounds [of "length x"] by (auto simp: pkcs7_pad_def Let_def)

lemma pkcs7_unpad_no_Panic [simp]: "pkcs7_unpad d n \<noteq> Panic"
  by (simp add: pkcs7_unpad_def Let_def)

section \<open>Totality\<close>

lemma decode64_no_Panic [simp]: "decode64 P s \<noteq> Panic"
  by (simp add: decode64_def)

lemma parse_no_Panic [simp]: "parse P s \<noteq> Panic"
  by (auto simp: parse_def Let_def outcome_iffs split: if_splits)

lemma decrypt_no_Panic [simp]: "decrypt P cs key \<noteq> Panic"
  by (auto simp: decrypt_def verify_mac_def outcome_iffs split: if_splits)

lemma decrypt_str_no_Panic [simp]: "decrypt_str P s key \<noteq> Panic"
  by (auto simp: decrypt_str_def decrypt_to_string_def outcome_iffs)

lemma stretch_key_no_Panic [simp]: "stretch_key P k \<noteq> Panic"
  by (auto simp: stretch_key_def outcome_iffs)

lemma decrypt_symmetric_key_no_Panic [simp]: "decrypt_symmetric_key P s k \<noteq> Panic"
  by (auto simp: decrypt_symmetric_key_def outcome_iffs split: outcome.splits if_splits)

lemma decrypt_private_key_no_Panic [simp]: "decrypt_private_key P s k \<noteq> Panic"
  by (auto simp: decrypt_private_key_def outcome_iffs)

lemma decrypt_org_key_no_Panic [simp]: "decrypt_org_key P s k \<noteq> Panic"
  by (auto simp: decrypt_org_key_def decrypt_rsa_def outcome_iffs split: if_splits)

section \<open>What a successful decryption means\<close>

definition mac_ok :: "'rsa prims \<Rightarrow> cipher_string \<Rightarrow> symmetric_key \<Rightarrow> bool" where
  "mac_ok P cs key \<longleftrightarrow>
     enc_type cs = ENC_TYPE_AES_CBC256_HMAC_SHA256_B64 \<longrightarrow>
       mac_key key \<noteq> [] \<and> mac cs = hmac_sha256 P (mac_key key) (iv cs @ ct cs)"

lemma verify_mac_Ok: "verify_mac P cs key = Ok u \<longleftrightarrow> mac_ok P cs key"
  by (auto simp: verify_mac_def mac_ok_def)

lemma decrypt_Ok:
  "decrypt P cs key = Ok x \<longleftrightarrow>
     length (iv cs) = 16 \<and> ct cs \<noteq> [] \<and> 16 dvd length (ct cs) \<and> mac_ok P cs key
     \<and> length (enc_key key) = 32
     \<and> aes256_cbc_decrypt P (enc_key key) (iv cs) (ct cs) = Inr (pkcs7_pad x)"
  by (auto simp: decrypt_def outcome_iffs verify_mac_Ok pkcs7.unpad_iff mod_eq_0_iff_dvd)

lemma legacy_type2:
  "enc_type cs = ENC_TYPE_AES_CBC256_HMAC_SHA256_B64 \<Longrightarrow>
     decrypt P cs \<lparr>enc_key = k, mac_key = []\<rparr> \<noteq> Ok x"
  by (simp add: decrypt_Ok mac_ok_def)

section \<open>Hypotheses on the foreign code\<close>

text \<open>Base64 decoding inverts encoding, and the alphabet has no separator character.\<close>

definition b64_laws :: "'rsa prims \<Rightarrow> bool" where
  "b64_laws P \<longleftrightarrow> (\<forall>b. b64_decode P (b64_encode P b) = Inr b \<and> CHR ''|'' \<notin> set (b64_encode P b))"

text \<open>AES-CBC without padding on whole blocks: decryption inverts encryption, lengths are kept.\<close>

definition aes_laws :: "'rsa prims \<Rightarrow> bool" where
  "aes_laws P \<longleftrightarrow> (\<forall>k v x. length k = 32 \<and> length v = 16 \<and> length x mod 16 = 0 \<longrightarrow>
     aes256_cbc_decrypt P k v (aes256_cbc_encrypt P k v x) = Inr x
     \<and> length (aes256_cbc_encrypt P k v x) = length x)"

section \<open>The textual form of cipher strings\<close>

text \<open>The three documented shapes, written out from a parsed string.\<close>

definition cipher_wf :: "cipher_string \<Rightarrow> bool" where
  "cipher_wf cs \<longleftrightarrow>
     enc_type cs = ENC_TYPE_AES_CBC256_B64 \<and> mac cs = []
     \<or> enc_type cs = ENC_TYPE_AES_CBC256_HMAC_SHA256_B64
     \<or> (enc_type cs = ENC_TYPE_RSA2048_OAEP_SHA256_B64 \<or> enc_type cs = ENC_TYPE_RSA2048_OAEP_SHA1_B64)
        \<and> iv cs = [] \<and> mac cs = []"

definition cipher_text :: "'rsa prims \<Rightarrow> cipher_string \<Rightarrow> string" where
  "cipher_text P cs = show_byte (enc_type cs) @ ''.'' @
     (if enc_type cs = ENC_TYPE_AES_CBC256_B64
      then b64_encode P (iv cs) @ ''|'' @ b64_encode P (ct cs)
      else if enc_type cs = ENC_TYPE_AES_CBC256_HMAC_SHA256_B64
      then b64_encode P (iv cs) @ ''|'' @ b64_encode P (ct cs) @ ''|'' @ b64_encode P (mac cs)
      else b64_encode P (ct cs))"

lemma splitn_3: "c \<notin> set a \<Longrightarrow> c \<notin> set b \<Longrightarrow> splitn 3 c (a @ c # b) = [a, b]"
  by (simp add: numeral_eq_Suc split_once_None [THEN iffD2])

lemma splitn_4:
  "c \<notin> set a \<Longrightarrow> c \<notin> set b \<Longrightarrow> c \<notin> set d \<Longrightarrow> splitn 4 c (a @ c # b @ c # d) = [a, b, d]"
  by (simp add: numeral_eq_Suc split_once_None [THEN iffD2])

lemma show_byte_no_dot: "CHR ''.'' \<notin> set (show_byte t)"
  using show_nat_digits [of "unat t"] by (auto simp: show_byte_def list_all_iff is_digit_def)

lemma parse_uint_show_byte: "parse_uint (show_byte t) = Some t"
proof -
  have "unat t < 2 ^ LENGTH(8)" by (rule unsigned_less)
  then show ?thesis
    using show_nat_digits [of "unat t"] by (simp add: show_byte_def parse_uint_digits)
qed

lemma decode64_encode: "b64_laws P \<Longrightarrow> decode64 P (b64_encode P b) = Ok b"
  by (simp add: decode64_def b64_laws_def)

lemma remove_char_id: "c \<notin> set s \<Longrightarrow> remove_char c s = s"
  by (auto simp: remove_char_def filter_id_conv)

lemma parse_type_prefix:
  "parse P (show_byte t @ ''.'' @ rest) = parse P (show_byte t @ CHR ''.'' # rest)"
  by simp

lemma parse_cipher_text_aux:
  assumes "b64_laws P" and "cipher_wf cs"
  shows "parse P (cipher_text P cs) = Ok cs"
proof -
  have bar: "CHR ''|'' \<notin> set (b64_encode P b)" for b
    using assms(1) by (simp add: b64_laws_def)
  note simps = parse_def cipher_text_def split_once_append [OF show_byte_no_dot]
    parse_uint_show_byte decode64_encode [OF assms(1)] enc_type_defs Let_def
  from assms(2) consider "enc_type cs = 0" "mac cs = []" | "enc_type cs = 2"
    | "enc_type cs = 3 \<or> enc_type cs = 4" "iv cs = []" "mac cs = []"
    by (auto simp: cipher_wf_def enc_type_defs)
  then show ?thesis
  proof cases
    case 1
    then show ?thesis using bar by (cases cs) (simp add: simps splitn_3)
  next
    case 2
    then show ?thesis using bar by (cases cs) (simp add: simps splitn_4)
  next
    case 3
    then show ?thesis using bar by (cases cs) (auto simp: simps remove_char_id)
  qed
qed

lemma parse_wf: "parse P s = Ok cs \<Longrightarrow> cipher_wf cs"
  by (auto simp: parse_def cipher_wf_def outcome_iffs Let_def enc_type_defs split: if_splits prod.splits)

lemma make_type2_text:
  "make_type2_cipherstring P ek mk v x =
     cipher_text P \<lparr>enc_type = 2, iv = v, ct = aes256_cbc_encrypt P ek v (pkcs7_pad x),
       mac = hmac_sha256 P mk (v @ aes256_cbc_encrypt P ek v (pkcs7_pad x))\<rparr>"
proof -
  have "show_byte 2 = ''2''" by (simp add: show_byte_def show_nat.simps char_of_eq_iff)
  then show ?thesis
    by (simp add: make_type2_cipherstring_def cipher_text_def enc_type_defs Let_def)
qed

lemma make_type2_nonempty [simp]: "make_type2_cipherstring P ek mk v x \<noteq> []"
  by (simp add: make_type2_cipherstring_def Let_def)

lemma parse_type2:
  assumes "b64_laws P"
  shows "parse P (make_type2_cipherstring P ek mk v x) =
    Ok \<lparr>enc_type = 2, iv = v, ct = aes256_cbc_encrypt P ek v (pkcs7_pad x),
        mac = hmac_sha256 P mk (v @ aes256_cbc_encrypt P ek v (pkcs7_pad x))\<rparr>"
  unfolding make_type2_text
  by (rule parse_cipher_text_aux [OF assms]) (simp add: cipher_wf_def enc_type_defs)

text \<open>Under a key with another MAC key nothing decrypts.\<close>

lemma decrypt_type2_wrong_key:
  assumes "b64_laws P" and "hmac_sha256 P (mac_key k) (v @ aes256_cbc_encrypt P ek v (pkcs7_pad x))
      \<noteq> hmac_sha256 P mk (v @ aes256_cbc_encrypt P ek v (pkcs7_pad x))"
  shows "decrypt_str P (make_type2_cipherstring P ek mk v x) k \<noteq> Ok t"
    and "decrypt_private_key P (make_type2_cipherstring P ek mk v x) k \<noteq> Ok r"
  using assms(2)
  by (auto simp: decrypt_str_def decrypt_to_string_def decrypt_private_key_def outcome_iffs
      parse_type2 [OF assms(1)] decrypt_Ok mac_ok_def enc_type_defs)

lemma decrypt_type2:
  assumes "b64_laws P" and "aes_laws P" and "length ek = 32" and "mk \<noteq> []" and "length v = 16"
  shows "\<exists>cs. parse P (make_type2_cipherstring P ek mk v x) = Ok cs
    \<and> decrypt P cs \<lparr>enc_key = ek, mac_key = mk\<rparr> = Ok x"
proof -
  let ?c = "aes256_cbc_encrypt P ek v (pkcs7_pad x)"
  let ?cs = "\<lparr>enc_type = 2, iv = v, ct = ?c, mac = hmac_sha256 P mk (v @ ?c)\<rparr>"
  have aes: "aes256_cbc_decrypt P ek v ?c = Inr (pkcs7_pad x)" "length ?c = length (pkcs7_pad x)"
    using assms(2,3,5) length_pkcs7_pad by (simp_all add: aes_laws_def)
  then have "?c \<noteq> []" "16 dvd length ?c"
    using length_pkcs7_pad [of x] by (auto simp: dvd_eq_mod_eq_0)
  moreover have "mac_ok P ?cs \<lparr>enc_key = ek, mac_key = mk\<rparr>"
    using assms(4) by (simp add: mac_ok_def)
  ultimately have "decrypt P ?cs \<lparr>enc_key = ek, mac_key = mk\<rparr> = Ok x"
    using aes(1) assms(3,5) by (simp add: decrypt_Ok)
  moreover have "parse P (make_type2_cipherstring P ek mk v x) = Ok ?cs"
    by (rule parse_type2 [OF assms(1)])
  ultimately show ?thesis by blast
qed

lemma decrypt_str_type2:
  assumes "b64_laws P" and "aes_laws P" and "length ek = 32" and "mk \<noteq> []" and "length v = 16"
    and "utf8_valid (as_bytes t)"
  shows "decrypt_str P (make_type2_cipherstring P ek mk v (as_bytes t)) \<lparr>enc_key = ek, mac_key = mk\<rparr>
    = Ok t"
  using decrypt_type2 [OF assms(1-5), of "as_bytes t"] assms(6)
  by (auto simp: decrypt_str_def decrypt_to_string_def from_utf8_as_bytes)

lemma decrypt_symmetric_key_type2:
  assumes "b64_laws P" and "aes_laws P" and "stretch_key P mk = Ok st"
    and "length (enc_key st) = 32" and "mac_key st \<noteq> []" and "length v = 16" and "length d = 64"
  shows "decrypt_symmetric_key P (make_type2_cipherstring P (enc_key st) (mac_key st) v d) mk
    = Ok (split_key d)"
proof -
  obtain cs where "parse P (make_type2_cipherstring P (enc_key st) (mac_key st) v d) = Ok cs"
    "decrypt P cs \<lparr>enc_key = enc_key st, mac_key = mac_key st\<rparr> = Ok d"
    using decrypt_type2 [OF assms(1,2,4,5,6)] by blast
  moreover have "\<lparr>enc_key = enc_key st, mac_key = mac_key st\<rparr> = st" by simp
  ultimately show ?thesis using assms(3,7) by (simp add: decrypt_symmetric_key_def)
qed

lemma mul_kib_Panic:
  "(mul_checked oc k 1024 :: ('e, u32) outcome) = Panic \<longleftrightarrow> oc \<and> 2 ^ 22 \<le> unat k"
  by (auto simp: mul_checked_def)

lemma make_master_key_Panic:
  "make_master_key oc U P pw email kdf it mib par = Panic \<longleftrightarrow>
     kdf = KDF_ARGON2ID \<and> oc \<and> 2 ^ 22 \<le> unat (case mib of Some m \<Rightarrow> m | None \<Rightarrow> 64)"
proof (cases "kdf = KDF_ARGON2ID")
  case True
  then have "kdf \<noteq> KDF_PBKDF2" by (simp add: KDF_ARGON2ID_def KDF_PBKDF2_def)
  with True show ?thesis
    by (auto simp: make_master_key_def Let_def obind_eq_Panic mul_kib_Panic simp del: power_numeral
        split: option.splits)
next
  case False
  then show ?thesis by (simp add: make_master_key_def Let_def)
qed

section \<open>A concrete instance of the foreign code\<close>

text \<open>Total functions with the documented laws, on which the hypotheses above are evaluated: a
  codec of two letters per byte, a cipher that reverses the block string, and hash functions that
  concatenate. They only show that the hypotheses can hold.\<close>

definition nibble_ok :: "char \<Rightarrow> bool" where
  "nibble_ok c \<longleftrightarrow> 65 \<le> (of_char c :: nat) \<and> (of_char c :: nat) < 81"

fun nib_decode :: "string \<Rightarrow> string + bytes" where
  "nib_decode [] = Inr []"
| "nib_decode [c] = Inl ''Invalid padding''"
| "nib_decode (a # b # r) =
     (if nibble_ok a \<and> nibble_ok b
      then (case nib_decode r of Inl e \<Rightarrow> Inl e
            | Inr bs \<Rightarrow> Inr (word_of_nat ((of_char a - 65) * 16 + (of_char b - 65)) # bs))
      else Inl ''Invalid symbol'')"

definition nib_encode :: "bytes \<Rightarrow> string" where
  "nib_encode bs =
     concat (map (\<lambda>b. [char_of (65 + unat b div 16), char_of (65 + unat b mod 16)]) bs)"

definition toy_prims :: "bytes prims" where
  "toy_prims =
     \<lparr>b64_decode = nib_decode, b64_encode = nib_encode,
      aes256_cbc_decrypt = (\<lambda>k v x. Inr (rev x)), aes256_cbc_encrypt = (\<lambda>k v x. rev x),
      hmac_sha256 = (\<lambda>k m. take 32 (k @ m)),
      pbkdf2_hmac_sha256 = (\<lambda>p s i n. take n (p @ s @ replicate n 0)),
      argon2_params = (\<lambda>m t p n. if m < 8 then Some ''memory too small'' else None),
      argon2id_hash = (\<lambda>m t p n pw s. Inr (take n (pw @ s @ replicate n 1))),
      hkdf_from_prk = (\<lambda>k. if length k < 32 then None else Some k),
      hkdf_expand = (\<lambda>k i n. Some (take n (i @ k @ replicate n 0))),
      rsa_oaep_decrypt = (\<lambda>h k c. if take (length k) c = k then Inr (drop (length k) c)
                                  else Inl ''decryption error''),
      rsa_from_pkcs8_der = (\<lambda>d. if d = [] then Inl ''PKCS#8 ASN.1 error'' else Inr d),
      utf8_error_text = (\<lambda>b. ''invalid utf-8'')\<rparr>"

definition toy_ucd :: ucd where
  "toy_ucd = \<lparr>lower_map = (\<lambda>ch. ch), cased_prop = (\<lambda>_. False), case_ignorable_prop = (\<lambda>_. False)\<rparr>"

lemma of_char_nibble: "n < 16 \<Longrightarrow> (of_char (char_of (65 + n) :: char) :: nat) = 65 + n"
  by simp

lemma nib_decode_encode: "nib_decode (nib_encode bs) = Inr bs"
proof (induction bs)
  case Nil
  then show ?case by (simp add: nib_encode_def)
next
  case (Cons b bs)
  have "unat b < 256" by (rule unat_byte_less)
  then have hi: "unat b div 16 < 16" and lo: "unat b mod 16 < 16" by auto
  have "nib_encode (b # bs) = char_of (65 + unat b div 16) # char_of (65 + unat b mod 16) # nib_encode bs"
    by (simp add: nib_encode_def)
  moreover have "word_of_nat (unat b div 16 * 16 + unat b mod 16) = b" by simp
  ultimately show ?case
    using Cons hi lo by (simp add: nibble_ok_def of_char_nibble del: of_char_of)
qed

lemma nib_encode_alphabet: "CHR ''|'' \<notin> set (nib_encode bs)"
proof -
  have "CHR ''|'' \<noteq> char_of (65 + n)" if "n < 16" for n :: nat
  proof
    assume eq: "CHR ''|'' = char_of (65 + n)"
    have "(of_char (char_of (65 + n) :: char) :: nat) = 65 + n"
      using that by (rule of_char_nibble)
    with eq [symmetric] that show False by simp
  qed
  moreover have "unat b div 16 < 16" for b :: byte
    using unat_byte_less [of b] by simp
  ultimately show ?thesis by (auto simp: nib_encode_def)
qed

lemma toy_b64_laws [simp]: "b64_laws toy_prims"
  by (simp add: b64_laws_def toy_prims_def nib_decode_encode nib_encode_alphabet)

lemma toy_aes_laws [simp]: "aes_laws toy_prims"
  by (simp add: aes_laws_def toy_prims_def)

lemma toy_rsa:
  "rsa_oaep_decrypt toy_prims h k c
     = (if take (length k) c = k then Inr (drop (length k) c) else Inl ''decryption error'')"
  "rsa_from_pkcs8_der toy_prims d = (if d = [] then Inl ''PKCS#8 ASN.1 error'' else Inr d)"
  by (simp_all add: toy_prims_def)

section \<open>Properties\<close>

text \<open>PKCS#7 unpadding with the block size 16 succeeds exactly on the padded form of its
  result: padding and unpadding are mutually inverse and every other buffer is rejected.\<close>

theorem pkcs7_unpad_iff:
  "pkcs7_unpad d 16 = Ok x \<longleftrightarrow> d = pkcs7_pad x"
  by (rule pkcs7.unpad_iff)

text \<open>Parsing inverts the documented textual form, exactly for the cipher strings of one of the
  supported shapes, and whatever \<open>parse\<close> returns has such a shape.\<close>

theorem parse_cipher_text:
  assumes "b64_laws P"
  shows "(parse P (cipher_text P cs) = Ok cs \<longleftrightarrow> cipher_wf cs)
    \<and> (parse P s = Ok cs' \<longrightarrow> cipher_wf cs')"
  using assms parse_cipher_text_aux parse_wf by blast

theorem parse_cipher_text_witness:
  "parse toy_prims (cipher_text toy_prims \<lparr>enc_type = 2, iv = [1], ct = [2, 3], mac = [4]\<rparr>)
     = Ok \<lparr>enc_type = 2, iv = [1], ct = [2, 3], mac = [4]\<rparr>"
  using parse_cipher_text [OF toy_b64_laws, of "\<lparr>enc_type = 2, iv = [1], ct = [2, 3], mac = [4]\<rparr>"]
  by (simp add: cipher_wf_def enc_type_defs)

text \<open>C21. Decrypting a string succeeds exactly in two cases: the empty input gives the empty string;
  otherwise the input parses, the IV and ciphertext have their lengths, a type 2 string carries
  the HMAC of IV and ciphertext under a non-empty MAC key, the encryption key has 32 bytes, and
  the block cipher returns the padded bytes of a valid UTF-8 string, which is the result.\<close>

theorem decrypt_str_Ok:
  "decrypt_str P s key = Ok t \<longleftrightarrow>
     (s = [] \<and> t = []) \<or>
     (s \<noteq> [] \<and> (\<exists>cs. parse P s = Ok cs \<and> length (iv cs) = 16 \<and> ct cs \<noteq> [] \<and> 16 dvd length (ct cs)
        \<and> mac_ok P cs key \<and> length (enc_key key) = 32 \<and> utf8_valid (as_bytes t)
        \<and> aes256_cbc_decrypt P (enc_key key) (iv cs) (ct cs) = Inr (pkcs7_pad (as_bytes t))))"
  by (auto simp: decrypt_str_def decrypt_to_string_def outcome_iffs decrypt_Ok from_utf8_eq_Some)

text \<open>C22. A type 2 string made by the encrypting side decrypts to its plaintext under the same keys.\<close>

theorem type2_round_trip:
  assumes "b64_laws P" and "aes_laws P" and "length ek = 32" and "mk \<noteq> []" and "length v = 16"
    and "utf8_valid (as_bytes t)"
  shows "decrypt_str P (make_type2_cipherstring P ek mk v (as_bytes t)) \<lparr>enc_key = ek, mac_key = mk\<rparr>
    = Ok t"
  using assms by (rule decrypt_str_type2)

theorem type2_round_trip_witness:
  "decrypt_str toy_prims
     (make_type2_cipherstring toy_prims (replicate 32 7) [1] (replicate 16 9) (as_bytes ''hunter2''))
     \<lparr>enc_key = replicate 32 7, mac_key = [1]\<rparr> = Ok ''hunter2''"
  by (rule type2_round_trip)
    (simp_all add: as_bytes_def byte_of_char_def)

text \<open>C23. An unwrapped symmetric key always consists of a 32-byte encryption key and a 32-byte MAC
  key, and comes from the HKDF-stretched master key; the fallback to the bare master key is only
  ever taken for unauthenticated type 0 strings.\<close>

theorem decrypt_symmetric_key_Ok:
  assumes "decrypt_symmetric_key P s mk = Ok k"
  shows "length (enc_key k) = 32 \<and> length (mac_key k) = 32 \<and>
    (\<exists>cs st. parse P s = Ok cs \<and> stretch_key P mk = Ok st \<and>
      (decrypt P cs st = Ok (enc_key k @ mac_key k)
       \<or> (\<exists>e. decrypt P cs st = Err e) \<and> enc_type cs = ENC_TYPE_AES_CBC256_B64
          \<and> decrypt P cs \<lparr>enc_key = mk, mac_key = []\<rparr> = Ok (enc_key k @ mac_key k)))"
proof -
  from assms obtain cs st d where d: "parse P s = Ok cs" "stretch_key P mk = Ok st" "length d = 64"
    "k = split_key d"
    "decrypt P cs st = Ok d \<or> (\<exists>e. decrypt P cs st = Err e) \<and> decrypt P cs \<lparr>enc_key = mk, mac_key = []\<rparr> = Ok d"
    by (auto simp: decrypt_symmetric_key_def outcome_iffs split: if_splits outcome.splits)
  have "enc_type cs = ENC_TYPE_AES_CBC256_B64" if "decrypt P cs \<lparr>enc_key = mk, mac_key = []\<rparr> = Ok d"
    using parse_wf [OF d(1)] that legacy_type2 [of cs P mk d] by (auto simp: cipher_wf_def decrypt_Ok)
  with d show ?thesis by (auto simp: split_key_def)
qed

theorem decrypt_symmetric_key_Ok_witness:
  "length (enc_key (split_key (replicate 64 3))) = 32 \<and>
   (\<exists>st. stretch_key toy_prims (replicate 32 5) = Ok st)"
proof -
  let ?mk = "replicate 32 5 :: bytes"
  obtain st where st: "stretch_key toy_prims ?mk = Ok st" "length (enc_key st) = 32" "mac_key st \<noteq> []"
    by (simp add: stretch_key_def toy_prims_def as_bytes_def)
  then have "decrypt_symmetric_key toy_prims
      (make_type2_cipherstring toy_prims (enc_key st) (mac_key st) (replicate 16 9) (replicate 64 3)) ?mk
      = Ok (split_key (replicate 64 3))"
    by (intro decrypt_symmetric_key_type2) simp_all
  from decrypt_symmetric_key_Ok [OF this] st(1) show ?thesis by simp
qed

text \<open>Deriving the master key panics only with overflow checks, for Argon2id and a server that
  asks for 4 TiB of memory or more; the release build wraps instead, so that such a request derives
  the same key as the request reduced by 4 TiB.\<close>

theorem make_master_key_memory:
  "(make_master_key oc U P pw email kdf it mib par = Panic \<longleftrightarrow>
      oc \<and> kdf = KDF_ARGON2ID \<and> (\<exists>m. mib = Some m \<and> 2 ^ 22 \<le> unat m))
   \<and> make_master_key False U P pw email kdf it (Some (m + 2 ^ 22)) par
       = make_master_key False U P pw email kdf it (Some m) par"
proof (rule conjI)
  let ?mem = "case mib of Some m \<Rightarrow> m | None \<Rightarrow> 64"
  show "make_master_key oc U P pw email kdf it mib par = Panic \<longleftrightarrow>
      oc \<and> kdf = KDF_ARGON2ID \<and> (\<exists>m. mib = Some m \<and> 2 ^ 22 \<le> unat m)"
    using make_master_key_Panic [of oc U P pw email kdf it mib par] by (auto split: option.splits)
  have "(m + 2 ^ 22) * 1024 = m * 1024" by (simp add: distrib_right)
  then show "make_master_key False U P pw email kdf it (Some (m + 2 ^ 22)) par
       = make_master_key False U P pw email kdf it (Some m) par"
    by (simp only: make_master_key_def Let_def mul_checked_release obind.simps option.case)
qed

end
