(* ===== verification/VaultSync.thy ===== *)
theory VaultSync
  imports Crypto "HOL-Library.AList"
begin

text \<open>
  \<open>src/vault/sync.rs\<close>, first half: the model of \<open>/api/sync\<close> (after deserialization), the decrypted
  snapshot, the organization index and the decryption of a whole vault.

  A \<open>HashMap\<close> that is only searched is a map. The custom fields of an item are also iterated, in an
  order Rust leaves open (and randomizes per map): they are an association list in iteration order,
  and \<open>H\<close>, an arbitrary permutation applied after each insertion, is a parameter.
\<close>

section \<open>Sync response and snapshot\<close>

record sync_organization =
  org_id :: string
  org_name :: string
  org_key :: string

record sync_uri =
  uri_uri :: "string option"

record sync_login =
  login_username :: "string option"
  login_password :: "string option"
  login_uri :: "string option"
  login_uris :: "sync_uri list"

record sync_card =
  cardholder_name :: "string option"
  card_number :: "string option"
  card_code :: "string option"

record sync_field =
  field_name :: "string option"
  field_value :: "string option"
  field_type :: byte

record sync_cipher =
  cipher_id :: string
  cipher_type :: byte
  organization_id :: "string option"
  cipher_name :: string
  cipher_notes :: "string option"
  login :: "sync_login option"
  card :: "sync_card option"
  cipher_fields :: "sync_field list"

record sync_profile =
  profile_id :: string
  profile_email :: string
  profile_key :: string
  private_key :: string
  organizations :: "sync_organization list"

record sync_response =
  profile :: sync_profile
  ciphers :: "sync_cipher list"

record decrypted_item =
  item_id :: string
  item_type :: byte
  item_org :: "string option"
  item_name :: string
  username :: string
  password :: string
  item_notes :: string
  item_uri :: string
  item_fields :: "(string \<times> string) list"

record vault_cache =
  items :: "decrypted_item list"
  orgs_by_name :: "string \<rightharpoonup> string list"

record decrypt_skips =
  no_org_key :: nat
  decrypt_failed :: nat

definition skips_total :: "decrypt_skips \<Rightarrow> nat" where
  "skips_total s = no_org_key s + decrypt_failed s"

type_synonym hash_order = "(string \<times> string) list \<Rightarrow> (string \<times> string) list"

text \<open>What an iteration order may do: permute.\<close>

definition hash_order_ok :: "hash_order \<Rightarrow> bool" where
  "hash_order_ok H \<longleftrightarrow> (\<forall>m. set (H m) = set m \<and> (distinct (map fst m) \<longrightarrow> distinct (map fst (H m))))"

section \<open>Operations\<close>

definition index_orgs :: "ucd \<Rightarrow> sync_organization list \<Rightarrow> string \<rightharpoonup> string list" where
  "index_orgs U orgs =
     foldl (\<lambda>by_name org.
         let k = to_lowercase U (org_name org)
         in by_name(k \<mapsto> (case by_name k of None \<Rightarrow> [] | Some ids \<Rightarrow> ids) @ [org_id org]))
       Map.empty orgs"

text \<open>\<open>decrypt_str(..).unwrap_or_default()\<close>.\<close>

definition decrypt_or_default :: "'rsa prims \<Rightarrow> symmetric_key \<Rightarrow> string \<Rightarrow> string" where
  "decrypt_or_default P key s = (case decrypt_str P s key of Ok t \<Rightarrow> t | _ \<Rightarrow> [])"

definition opt_decrypt :: "'rsa prims \<Rightarrow> symmetric_key \<Rightarrow> string option \<Rightarrow> string" where
  "opt_decrypt P key s = (case s of None \<Rightarrow> [] | Some x \<Rightarrow> decrypt_or_default P key x)"

definition login_uri_text :: "'rsa prims \<Rightarrow> symmetric_key \<Rightarrow> sync_login \<Rightarrow> string" where
  "login_uri_text P key l =
     (let u = opt_decrypt P key (login_uri l)
      in if u = []
         then (case login_uris l of [] \<Rightarrow> u
               | first # _ \<Rightarrow> (case uri_uri first of None \<Rightarrow> u | Some x \<Rightarrow> decrypt_or_default P key x))
         else u)"

definition insert_field ::
    "hash_order \<Rightarrow> 'rsa prims \<Rightarrow> symmetric_key \<Rightarrow> (string \<times> string) list \<Rightarrow> sync_field \<Rightarrow> (string \<times> string) list" where
  "insert_field H P key m field =
     (let fname = opt_decrypt P key (field_name field);
          fvalue = opt_decrypt P key (field_value field)
      in if fname \<noteq> [] then H (AList.update fname fvalue m) else m)"

definition decrypt_cipher ::
    "hash_order \<Rightarrow> 'rsa prims \<Rightarrow> sync_cipher \<Rightarrow> symmetric_key \<Rightarrow> (crypto_error, decrypted_item) outcome" where
  "decrypt_cipher H P cipher key =
     obind (decrypt_str P (cipher_name cipher) key) (\<lambda>name.
       Ok \<lparr>item_id = cipher_id cipher, item_type = cipher_type cipher,
           item_org = (case organization_id cipher of
               Some oid \<Rightarrow> if oid = [] then None else Some oid | None \<Rightarrow> None),
           item_name = name,
           username = (case login cipher of None \<Rightarrow> [] | Some l \<Rightarrow> opt_decrypt P key (login_username l)),
           password = (case login cipher of None \<Rightarrow> [] | Some l \<Rightarrow> opt_decrypt P key (login_password l)),
           item_notes = opt_decrypt P key (cipher_notes cipher),
           item_uri = (case login cipher of None \<Rightarrow> [] | Some l \<Rightarrow> login_uri_text P key l),
           item_fields = foldl (insert_field H P key) [] (cipher_fields cipher)\<rparr>)"

definition decrypt_org_keys :: "'rsa prims \<Rightarrow> sync_profile \<Rightarrow> symmetric_key \<Rightarrow> string \<rightharpoonup> symmetric_key" where
  "decrypt_org_keys P prof sym_key =
     (if organizations prof \<noteq> [] \<and> private_key prof \<noteq> []
      then (case decrypt_private_key P (private_key prof) sym_key of
          Ok pk \<Rightarrow>
            foldl (\<lambda>org_keys org.
                case decrypt_org_key P (org_key org) pk of
                  Ok k \<Rightarrow> org_keys(org_id org \<mapsto> k)
                | _ \<Rightarrow> org_keys)
              Map.empty (organizations prof)
        | _ \<Rightarrow> Map.empty)
      else Map.empty)"

text \<open>The key a cipher is decrypted with; \<open>None\<close> when its organization's key is missing.\<close>

definition cipher_key :: "(string \<rightharpoonup> symmetric_key) \<Rightarrow> symmetric_key \<Rightarrow> sync_cipher \<Rightarrow> symmetric_key option" where
  "cipher_key org_keys sym_key cipher =
     (case organization_id cipher of
        Some oid \<Rightarrow> if oid = [] then Some sym_key else org_keys oid
      | None \<Rightarrow> Some sym_key)"

definition decrypt_step ::
    "hash_order \<Rightarrow> 'rsa prims \<Rightarrow> (string \<rightharpoonup> symmetric_key) \<Rightarrow> symmetric_key
       \<Rightarrow> decrypted_item list \<times> decrypt_skips \<Rightarrow> sync_cipher \<Rightarrow> decrypted_item list \<times> decrypt_skips" where
  "decrypt_step H P org_keys sym_key acc cipher =
     (case acc of (its, skips) \<Rightarrow>
        (case cipher_key org_keys sym_key cipher of
           None \<Rightarrow> (its, skips\<lparr>no_org_key := no_org_key skips + 1\<rparr>)
         | Some key \<Rightarrow>
             (case decrypt_cipher H P cipher key of
                Ok item \<Rightarrow> (its @ [item], skips)
              | _ \<Rightarrow> (its, skips\<lparr>decrypt_failed := decrypt_failed skips + 1\<rparr>))))"

definition decrypt_vault ::
    "hash_order \<Rightarrow> ucd \<Rightarrow> 'rsa prims \<Rightarrow> sync_response \<Rightarrow> symmetric_key \<Rightarrow> vault_cache \<times> decrypt_skips" where
  "decrypt_vault H U P sync sym_key =
     (let org_keys = decrypt_org_keys P (profile sync) sym_key;
          (its, skips) = foldl (decrypt_step H P org_keys sym_key)
                           ([], \<lparr>no_org_key = 0, decrypt_failed = 0\<rparr>) (ciphers sync)
      in (\<lparr>items = its, orgs_by_name = index_orgs U (organizations (profile sync))\<rparr>, skips))"

section \<open>The organization index\<close>

definition orgs_named :: "ucd \<Rightarrow> sync_organization list \<Rightarrow> string \<Rightarrow> sync_organization list" where
  "orgs_named U orgs v = filter (\<lambda>o'. to_lowercase U (org_name o') = to_lowercase U v) orgs"

lemma index_orgs_snoc:
  "index_orgs U (orgs @ [org]) =
     (let k = to_lowercase U (org_name org); m = index_orgs U orgs
      in m(k \<mapsto> (case m k of None \<Rightarrow> [] | Some ids \<Rightarrow> ids) @ [org_id org]))"
  by (simp add: index_orgs_def Let_def)

lemma index_orgs_lookup:
  "index_orgs U orgs (to_lowercase U v) =
     (if orgs_named U orgs v = [] then None else Some (map org_id (orgs_named U orgs v)))"
proof (induction orgs rule: rev_induct)
  case Nil
  show ?case by (simp add: index_orgs_def orgs_named_def)
next
  case (snoc org orgs)
  then show ?case
    by (cases "orgs_named U orgs v = []") (auto simp: index_orgs_snoc orgs_named_def Let_def)
qed

lemma index_orgs_nonempty: "index_orgs U orgs k \<noteq> Some []"
  by (induction orgs rule: rev_induct)
    (simp add: index_orgs_def, simp add: index_orgs_snoc Let_def)

section \<open>Decrypting a vault\<close>

text \<open>The reference: the ciphers that have a key and decrypt, in order.\<close>

definition decrypt_one ::
    "hash_order \<Rightarrow> 'rsa prims \<Rightarrow> (string \<rightharpoonup> symmetric_key) \<Rightarrow> symmetric_key \<Rightarrow> sync_cipher \<Rightarrow> decrypted_item option" where
  "decrypt_one H P org_keys sym_key c =
     (case cipher_key org_keys sym_key c of
        None \<Rightarrow> None
      | Some k \<Rightarrow> (case decrypt_cipher H P c k of Ok x \<Rightarrow> Some x | _ \<Rightarrow> None))"

lemma decrypt_cipher_no_Panic [simp]: "decrypt_cipher H P c k \<noteq> Panic"
  by (simp add: decrypt_cipher_def outcome_iffs)

lemma decrypt_one_Some:
  "decrypt_one H P ks sk c = Some x \<longleftrightarrow>
     (\<exists>k. cipher_key ks sk c = Some k \<and> decrypt_cipher H P c k = Ok x)"
  by (auto simp: decrypt_one_def split: option.split outcome.split)

lemma decrypt_step_cases:
  "cipher_key ks sk c = None \<Longrightarrow>
     decrypt_step H P ks sk (its, skips) c = (its, skips\<lparr>no_org_key := no_org_key skips + 1\<rparr>)"
  "cipher_key ks sk c = Some k \<Longrightarrow> decrypt_cipher H P c k = Ok x \<Longrightarrow>
     decrypt_step H P ks sk (its, skips) c = (its @ [x], skips)"
  "cipher_key ks sk c = Some k \<Longrightarrow> decrypt_cipher H P c k = Err e \<Longrightarrow>
     decrypt_step H P ks sk (its, skips) c = (its, skips\<lparr>decrypt_failed := decrypt_failed skips + 1\<rparr>)"
  by (simp_all add: decrypt_step_def)

lemma map_filter_Cons:
  "List.map_filter f (x # xs) = (case f x of None \<Rightarrow> [] | Some y \<Rightarrow> [y]) @ List.map_filter f xs"
  by (simp add: List.map_filter_def split: option.splits)

lemma decrypt_loop:
  "foldl (decrypt_step H P ks sk) (its, skips) cs =
     (its @ List.map_filter (decrypt_one H P ks sk) cs,
      \<lparr>no_org_key = no_org_key skips + length (filter (\<lambda>c. cipher_key ks sk c = None) cs),
       decrypt_failed = decrypt_failed skips
         + length (filter (\<lambda>c. cipher_key ks sk c \<noteq> None \<and> decrypt_one H P ks sk c = None) cs)\<rparr>)"
proof (induction cs arbitrary: its skips)
  case Nil
  show ?case by (cases skips) (simp add: List.map_filter_def)
next
  case (Cons c cs)
  consider "cipher_key ks sk c = None"
    | k x where "cipher_key ks sk c = Some k" "decrypt_cipher H P c k = Ok x"
    | k e where "cipher_key ks sk c = Some k" "decrypt_cipher H P c k = Err e"
    by (metis option.exhaust outcome.exhaust decrypt_cipher_no_Panic)
  then show ?case
    by cases (simp_all add: decrypt_step_cases Cons map_filter_Cons, simp_all add: decrypt_one_def)
qed

lemma length_map_filter: "length (List.map_filter f xs) = length (filter (\<lambda>x. f x \<noteq> None) xs)"
  by (simp add: List.map_filter_def)

lemma set_map_filter_in: "y \<in> set (List.map_filter f xs) \<longleftrightarrow> (\<exists>x \<in> set xs. f x = Some y)"
  by (force simp: List.map_filter_def)

lemma decrypt_vault_eq:
  "decrypt_vault H U P sync sk =
     (let ks = decrypt_org_keys P (profile sync) sk; cs = ciphers sync in
      (\<lparr>items = List.map_filter (decrypt_one H P ks sk) cs,
        orgs_by_name = index_orgs U (organizations (profile sync))\<rparr>,
       \<lparr>no_org_key = length (filter (\<lambda>c. cipher_key ks sk c = None) cs),
        decrypt_failed = length (filter (\<lambda>c. cipher_key ks sk c \<noteq> None \<and> decrypt_one H P ks sk c = None) cs)\<rparr>))"
  by (simp add: decrypt_vault_def Let_def decrypt_loop)

lemma decrypt_org_keys_Some:
  assumes "decrypt_org_keys P prof sk oid = Some k"
  shows "\<exists>pk org. decrypt_private_key P (private_key prof) sk = Ok pk \<and> org \<in> set (organizations prof)
    \<and> org_id org = oid \<and> decrypt_org_key P (org_key org) pk = Ok k"
proof -
  let ?ins = "\<lambda>pk org_keys org. case decrypt_org_key P (org_key org) pk of
      Ok k \<Rightarrow> org_keys(org_id org \<mapsto> k) | _ \<Rightarrow> org_keys"
  have fold: "foldl (?ins pk) Map.empty orgs oid = Some k \<Longrightarrow>
      \<exists>org \<in> set orgs. org_id org = oid \<and> decrypt_org_key P (org_key org) pk = Ok k" for pk orgs
    by (induction orgs rule: rev_induct) (auto split: outcome.splits if_splits)
  from assms obtain pk where "decrypt_private_key P (private_key prof) sk = Ok pk"
    "foldl (?ins pk) Map.empty (organizations prof) oid = Some k"
    by (auto simp: decrypt_org_keys_def split: outcome.splits if_splits)
  with fold show ?thesis by blast
qed

lemma decrypt_cipher_org:
  "decrypt_cipher H P c k = Ok x \<Longrightarrow>
     item_org x = (case organization_id c of Some oid \<Rightarrow> if oid = [] then None else Some oid | None \<Rightarrow> None)"
  by (auto simp: decrypt_cipher_def outcome_iffs)

section \<open>A concrete vault\<close>

text \<open>One personal and one organization item of the same name, encrypted with the concrete
  instance of the foreign code.\<close>

definition demo_key :: symmetric_key where
  "demo_key = \<lparr>enc_key = replicate 32 1, mac_key = replicate 32 2\<rparr>"

definition demo_org_key :: symmetric_key where
  "demo_org_key = \<lparr>enc_key = replicate 32 3, mac_key = replicate 32 4\<rparr>"

definition demo_enc :: "symmetric_key \<Rightarrow> string \<Rightarrow> string" where
  "demo_enc k t = make_type2_cipherstring toy_prims (enc_key k) (mac_key k) (replicate 16 0) (as_bytes t)"

definition demo_cipher :: "symmetric_key \<Rightarrow> string \<Rightarrow> string option \<Rightarrow> string \<Rightarrow> string \<Rightarrow> sync_cipher" where
  "demo_cipher k cid org n pw =
     \<lparr>cipher_id = cid, cipher_type = 1, organization_id = org, cipher_name = demo_enc k n,
      cipher_notes = None,
      login = Some \<lparr>login_username = None, login_password = Some (demo_enc k pw), login_uri = None,
                    login_uris = []\<rparr>,
      card = None, cipher_fields = []\<rparr>"

definition demo_item :: "string \<Rightarrow> string option \<Rightarrow> string \<Rightarrow> string \<Rightarrow> decrypted_item" where
  "demo_item cid org n pw =
     \<lparr>item_id = cid, item_type = 1, item_org = org, item_name = n, username = [], password = pw,
      item_notes = [], item_uri = [], item_fields = []\<rparr>"

definition demo_orgs :: "sync_organization list" where
  "demo_orgs =
     [\<lparr>org_id = ''o1'', org_name = ''Apollo'',
       org_key = cipher_text toy_prims \<lparr>enc_type = 4, iv = [],
         ct = [5] @ replicate 32 3 @ replicate 32 4, mac = []\<rparr>\<rparr>]"

definition demo_sync :: sync_response where
  "demo_sync =
     \<lparr>profile = \<lparr>profile_id = ''u'', profile_email = ''u@x'', profile_key = ''k'',
        private_key = make_type2_cipherstring toy_prims (enc_key demo_key) (mac_key demo_key)
          (replicate 16 0) [5],
        organizations = demo_orgs\<rparr>,
      ciphers = [demo_cipher demo_key ''c1'' None ''db'' ''personal'',
                 demo_cipher demo_org_key ''c2'' (Some ''o1'') ''db'' ''shared'']\<rparr>"

lemma demo_decrypt:
  assumes "k = demo_key \<or> k = demo_org_key" and "utf8_valid (as_bytes t)"
  shows "decrypt_str toy_prims (demo_enc k t) k = Ok t"
proof -
  have "length (enc_key k) = 32" "mac_key k \<noteq> []"
    using assms(1) by (auto simp: demo_key_def demo_org_key_def)
  then show ?thesis
    using decrypt_str_type2 [OF toy_b64_laws toy_aes_laws, of "enc_key k" "mac_key k" "replicate 16 0" t]
      assms(2) by (simp add: demo_enc_def)
qed

lemma demo_decrypt_cipher:
  assumes "k = demo_key \<or> k = demo_org_key" and "utf8_valid (as_bytes n)" and "utf8_valid (as_bytes pw)"
    and "org \<noteq> Some []"
  shows "decrypt_cipher H toy_prims (demo_cipher k cid org n pw) k = Ok (demo_item cid org n pw)"
  using assms demo_decrypt [OF assms(1,2)] demo_decrypt [OF assms(1,3)]
  by (simp add: decrypt_cipher_def demo_cipher_def demo_item_def opt_decrypt_def
      decrypt_or_default_def login_uri_text_def split: option.splits)

lemma demo_private_key: "decrypt_private_key toy_prims (private_key (profile demo_sync)) demo_key = Ok [5]"
proof -
  obtain cs where "parse toy_prims (private_key (profile demo_sync)) = Ok cs"
    "decrypt toy_prims cs demo_key = Ok [5]"
    using decrypt_type2 [OF toy_b64_laws toy_aes_laws, of "enc_key demo_key" "mac_key demo_key"
        "replicate 16 0" "[5]"]
    by (auto simp: demo_sync_def demo_key_def)
  then show ?thesis
    by (simp add: decrypt_private_key_def demo_sync_def toy_rsa)
qed

lemma demo_org_keys:
  "decrypt_org_keys toy_prims (profile demo_sync) demo_key = [''o1'' \<mapsto> demo_org_key]"
proof -
  let ?cs = "\<lparr>enc_type = 4, iv = [], ct = [5] @ replicate 32 3 @ replicate 32 4, mac = []\<rparr>"
  have "parse toy_prims (cipher_text toy_prims ?cs) = Ok ?cs"
    by (rule parse_cipher_text_aux) (simp_all add: cipher_wf_def enc_type_defs)
  moreover have "cipher_text toy_prims ?cs \<noteq> []" by (simp add: cipher_text_def)
  ultimately have "decrypt_org_key toy_prims (cipher_text toy_prims ?cs) [5] = Ok demo_org_key"
    by (simp add: decrypt_org_key_def decrypt_rsa_def enc_type_defs split_key_def demo_org_key_def
        toy_rsa)
  moreover have "private_key (profile demo_sync) \<noteq> []" by (simp add: demo_sync_def)
  ultimately show ?thesis
    using demo_private_key by (simp add: decrypt_org_keys_def) (simp add: demo_sync_def demo_orgs_def)
qed

lemma utf8_ascii_literal: "list_all is_ascii s \<Longrightarrow> utf8_valid (as_bytes s)"
  by (intro utf8_valid_ascii)
    (auto simp: as_bytes_def byte_of_char_def list_all_iff is_ascii_def word_less_nat_alt
      unat_of_nat take_bit_nat_eq_self)

lemma demo_vault:
  "decrypt_vault H U toy_prims demo_sync demo_key =
     (\<lparr>items = [demo_item ''c1'' None ''db'' ''personal'', demo_item ''c2'' (Some ''o1'') ''db'' ''shared''],
       orgs_by_name = index_orgs U demo_orgs\<rparr>, \<lparr>no_org_key = 0, decrypt_failed = 0\<rparr>)"
proof -
  have "cipher_key [''o1'' \<mapsto> demo_org_key] demo_key (demo_cipher k cid None n pw) = Some demo_key"
    and "cipher_key [''o1'' \<mapsto> demo_org_key] demo_key (demo_cipher k cid (Some ''o1'') n pw) = Some demo_org_key"
    for k cid n pw
    by (simp_all add: cipher_key_def demo_cipher_def)
  moreover have "utf8_valid (as_bytes ''db'')" "utf8_valid (as_bytes ''personal'')"
    "utf8_valid (as_bytes ''shared'')"
    by (rule utf8_ascii_literal, simp add: is_ascii_def)+
  ultimately show ?thesis
    by (simp add: decrypt_vault_eq demo_org_keys Let_def)
      (simp add: demo_sync_def decrypt_one_def demo_decrypt_cipher map_filter_Cons List.map_filter_def)
qed

text \<open>Under another account key the same answer yields an empty snapshot.\<close>

lemma demo_vault_wrong_key:
  "items (fst (decrypt_vault H U toy_prims demo_sync demo_org_key)) = []"
proof -
  have hmac: "hmac_sha256 toy_prims (mac_key demo_org_key) m \<noteq> hmac_sha256 toy_prims (mac_key demo_key) m" for m
    by (simp add: toy_prims_def demo_org_key_def demo_key_def)
  have name: "decrypt_str toy_prims (demo_enc demo_key ''db'') demo_org_key \<noteq> Ok t" for t
    unfolding demo_enc_def by (rule decrypt_type2_wrong_key) (simp_all add: hmac)
  have "decrypt_private_key toy_prims (private_key (profile demo_sync)) demo_org_key \<noteq> Ok r" for r
    unfolding demo_sync_def by simp (rule decrypt_type2_wrong_key, simp_all add: hmac)
  then have keys: "decrypt_org_keys toy_prims (profile demo_sync) demo_org_key = Map.empty"
    by (auto simp: decrypt_org_keys_def split: outcome.split)
  have "decrypt_cipher H toy_prims (demo_cipher demo_key cid org ''db'' pw) demo_org_key \<noteq> Ok x" for cid org pw x
    using name by (auto simp: decrypt_cipher_def demo_cipher_def outcome_iffs)
  then have "decrypt_one H toy_prims Map.empty demo_org_key (demo_cipher demo_key ''c1'' None ''db'' pw) = None" for pw
    by (auto simp: decrypt_one_def cipher_key_def demo_cipher_def split: outcome.split)
  moreover have "decrypt_one H toy_prims Map.empty demo_org_key
      (demo_cipher demo_org_key ''c2'' (Some ''o1'') n pw) = None" for n pw
    by (simp add: decrypt_one_def cipher_key_def demo_cipher_def)
  moreover have "ciphers demo_sync = [demo_cipher demo_key ''c1'' None ''db'' ''personal'',
      demo_cipher demo_org_key ''c2'' (Some ''o1'') ''db'' ''shared'']"
    by (simp add: demo_sync_def)
  ultimately show ?thesis
    by (simp add: decrypt_vault_eq Let_def keys map_filter_Cons List.map_filter_def)
qed

section \<open>Properties\<close>

text \<open>Decrypting a vault keeps, in order, exactly the ciphers that have a key and decrypt under
  it, indexes every organization whether or not its key could be unwrapped, and counts every other
  cipher in exactly one of the two skip counters.\<close>

theorem decrypt_vault_accounting:
  "\<exists>cache skips ks. decrypt_vault H U P sync sk = (cache, skips)
     \<and> ks = decrypt_org_keys P (profile sync) sk
     \<and> items cache = List.map_filter (decrypt_one H P ks sk) (ciphers sync)
     \<and> orgs_by_name cache = index_orgs U (organizations (profile sync))
     \<and> no_org_key skips = length (filter (\<lambda>c. cipher_key ks sk c = None) (ciphers sync))
     \<and> length (items cache) + skips_total skips = length (ciphers sync)"
proof -
  define ks where "ks = decrypt_org_keys P (profile sync) sk"
  let ?one = "decrypt_one H P ks sk" and ?key = "cipher_key ks sk"
  have "length (filter (\<lambda>c. ?one c \<noteq> None) cs) + (length (filter (\<lambda>c. ?key c = None) cs)
      + length (filter (\<lambda>c. ?key c \<noteq> None \<and> ?one c = None) cs)) = length cs" for cs
    by (induction cs) (auto simp: decrypt_one_def)
  then show ?thesis
    by (simp add: decrypt_vault_eq Let_def ks_def length_map_filter skips_total_def)
qed

text \<open>C7. Vault isolation: every item of the snapshot is the decryption of a cipher of the response,
  under the user's key when it belongs to nobody else, and under the key unwrapped for its own
  organization otherwise.\<close>

theorem decrypt_vault_isolation:
  assumes "x \<in> set (items (fst (decrypt_vault H U P sync sk)))"
  shows "\<exists>c \<in> set (ciphers sync). item_id x = cipher_id c \<and>
    (case item_org x of
       None \<Rightarrow> decrypt_cipher H P c sk = Ok x
     | Some oid \<Rightarrow> \<exists>org \<in> set (organizations (profile sync)). \<exists>pk k.
         org_id org = oid \<and> organization_id c = Some oid
         \<and> decrypt_private_key P (private_key (profile sync)) sk = Ok pk
         \<and> decrypt_org_key P (org_key org) pk = Ok k \<and> decrypt_cipher H P c k = Ok x)"
proof -
  let ?ks = "decrypt_org_keys P (profile sync) sk"
  from assms obtain c k where c: "c \<in> set (ciphers sync)" "cipher_key ?ks sk c = Some k"
    "decrypt_cipher H P c k = Ok x"
    by (auto simp: decrypt_vault_eq Let_def set_map_filter_in decrypt_one_Some)
  have "item_id x = cipher_id c" using c(3) by (auto simp: decrypt_cipher_def outcome_iffs)
  with c decrypt_cipher_org [OF c(3)] show ?thesis
    by (intro bexI [of _ c])
      (auto simp: cipher_key_def split: option.splits if_splits dest!: decrypt_org_keys_Some)
qed

theorem decrypt_vault_isolation_witness:
  "\<exists>c \<in> set (ciphers demo_sync). cipher_id c = ''c2'' \<and> organization_id c = Some ''o1''"
  using decrypt_vault_isolation [of "demo_item ''c2'' (Some ''o1'') ''db'' ''shared''" id toy_ucd
      toy_prims demo_sync demo_key]
  by (auto simp: demo_vault demo_item_def)

end
