(* ===== verification/Lookup.thy ===== *)
theory Lookup
  imports VaultSync
begin

text \<open>
  \<open>src/vault/sync.rs\<close>, second half: finding an item by name inside an optional organization
  scope, looking it up in the snapshot, and extracting the secret value from it.
\<close>

section \<open>Operations\<close>

datatype lookup_error =
    VaultNotFound string
  | VaultAmbiguous string
  | NotFoundInVault string string nat
  | NotFound string nat

definition is_stale_miss :: "lookup_error \<Rightarrow> bool" where
  "is_stale_miss e = (case e of VaultAmbiguous _ \<Rightarrow> False | _ \<Rightarrow> True)"

fun show_lookup_error :: "(string \<Rightarrow> string) \<Rightarrow> lookup_error \<Rightarrow> string" where
  "show_lookup_error dbg (VaultNotFound v) = ''vault (organization) '' @ dbg v @ '' not found''"
| "show_lookup_error dbg (VaultAmbiguous v) =
     ''vault name '' @ dbg v @ '' matches multiple organizations; use a unique name''"
| "show_lookup_error dbg (NotFoundInVault n v k) =
     ''secret '' @ dbg n @ '' not found in vault '' @ dbg v @ '' ('' @ show_nat k @ '' items searched)''"
| "show_lookup_error dbg (NotFound n k) =
     ''secret '' @ dbg n @ '' not found in vault cache ('' @ show_nat k @ '' items searched)''"

definition in_scope :: "string option \<Rightarrow> decrypted_item \<Rightarrow> bool" where
  "in_scope oid item = (case oid of None \<Rightarrow> True | Some i \<Rightarrow> item_org item = Some i)"

definition find_item :: "ucd \<Rightarrow> decrypted_item list \<Rightarrow> string \<Rightarrow> string option \<Rightarrow> decrypted_item option" where
  "find_item U its name oid =
     (let key = to_lowercase U name in
      case find (\<lambda>item. in_scope oid item \<and> to_lowercase U (item_name item) = key) its of
        Some item \<Rightarrow> Some item
      | None \<Rightarrow> find (\<lambda>item. in_scope oid item \<and> contains (to_lowercase U (item_name item)) key) its)"

definition lookup_item ::
    "ucd \<Rightarrow> vault_cache \<Rightarrow> string \<Rightarrow> string option \<Rightarrow> (lookup_error, decrypted_item) outcome" where
  "lookup_item U cache name vault =
     (case vault of
        Some v \<Rightarrow>
          obind (ok_or (VaultNotFound v) (orgs_by_name cache (to_lowercase U v))) (\<lambda>org_ids.
            if 1 < length org_ids then Err (VaultAmbiguous v)
            else (case org_ids of
                [] \<Rightarrow> Panic
              | oid # _ \<Rightarrow>
                  ok_or (NotFoundInVault name v (length (items cache)))
                    (find_item U (items cache) name (Some oid))))
      | None \<Rightarrow>
          ok_or (NotFound name (length (items cache))) (find_item U (items cache) name None))"

definition secret_field_names :: "string list" where
  "secret_field_names = [''value'', ''secret'', ''api_key'', ''apikey'', ''token'']"

fun first_named_field :: "(string \<times> string) list \<Rightarrow> string list \<Rightarrow> string option" where
  "first_named_field m [] = None"
| "first_named_field m (n # ns) =
     (case map_of m n of
        Some v \<Rightarrow> if v \<noteq> [] then Some v else first_named_field m ns
      | None \<Rightarrow> first_named_field m ns)"

definition extract_secret :: "decrypted_item \<Rightarrow> string" where
  "extract_secret item =
     (if password item \<noteq> [] then password item
      else case first_named_field (item_fields item) secret_field_names of
        Some v \<Rightarrow> v
      | None \<Rightarrow>
          if item_notes item \<noteq> [] then item_notes item
          else case find (\<lambda>v. v \<noteq> []) (map snd (item_fields item)) of Some v \<Rightarrow> v | None \<Rightarrow> [])"

section \<open>Ranking matches\<close>

text \<open>The specification of \<open>find_item\<close>: items are ranked, an exact match above a partial one, and
  the first item of the highest rank is returned.\<close>

datatype match_rank = NoMatch | PartialMatch | ExactMatch

fun rank_val :: "match_rank \<Rightarrow> nat" where
  "rank_val NoMatch = 0"
| "rank_val PartialMatch = 1"
| "rank_val ExactMatch = 2"

lemma rank_val_inj: "rank_val a = rank_val b \<Longrightarrow> a = b"
  by (cases a; cases b) simp_all

instantiation match_rank :: linorder
begin

definition less_eq_match_rank :: "match_rank \<Rightarrow> match_rank \<Rightarrow> bool" where
  "less_eq_match_rank a b \<longleftrightarrow> rank_val a \<le> rank_val b"

definition less_match_rank :: "match_rank \<Rightarrow> match_rank \<Rightarrow> bool" where
  "less_match_rank a b \<longleftrightarrow> rank_val a < rank_val b"

instance
  by standard (auto simp: less_eq_match_rank_def less_match_rank_def intro: rank_val_inj)

end

definition match_rank :: "ucd \<Rightarrow> string \<Rightarrow> string option \<Rightarrow> decrypted_item \<Rightarrow> match_rank" where
  "match_rank U name oid item =
     (if \<not> in_scope oid item then NoMatch
      else if to_lowercase U (item_name item) = to_lowercase U name then ExactMatch
      else if contains (to_lowercase U (item_name item)) (to_lowercase U name) then PartialMatch
      else NoMatch)"

lemmas rank_order = less_eq_match_rank_def less_match_rank_def

lemma rank_exact: "match_rank U name oid item = ExactMatch \<longleftrightarrow>
    in_scope oid item \<and> to_lowercase U (item_name item) = to_lowercase U name"
  by (simp add: match_rank_def)

lemma rank_some: "match_rank U name oid item \<noteq> NoMatch \<longleftrightarrow>
    in_scope oid item \<and> contains (to_lowercase U (item_name item)) (to_lowercase U name)"
  by (simp add: match_rank_def)

lemma find_item_rank:
  "find_item U its name oid =
     (case find (\<lambda>x. match_rank U name oid x = ExactMatch) its of
        Some x \<Rightarrow> Some x
      | None \<Rightarrow> find (\<lambda>x. match_rank U name oid x \<noteq> NoMatch) its)"
  unfolding find_item_def rank_exact rank_some Let_def by (rule refl)

definition first_best :: "('a \<Rightarrow> match_rank) \<Rightarrow> 'a list \<Rightarrow> 'a \<Rightarrow> bool" where
  "first_best r xs x \<longleftrightarrow> (\<exists>us vs. xs = us @ x # vs \<and> r x \<noteq> NoMatch
     \<and> list_all (\<lambda>u. r u < r x) us \<and> list_all (\<lambda>v. r v \<le> r x) vs)"

lemma rank_cases: "r = NoMatch \<or> r = PartialMatch \<or> r = ExactMatch"
  by (cases r) simp_all

lemma rank_le_Exact [simp]: "r \<le> ExactMatch"
  by (cases r) (simp_all add: rank_order)

lemma rank_less_Exact [simp]: "r < ExactMatch \<longleftrightarrow> r \<noteq> ExactMatch"
  by (cases r) (simp_all add: rank_order)

lemma rank_le_Partial [simp]: "r \<le> PartialMatch \<longleftrightarrow> r \<noteq> ExactMatch"
  by (cases r) (simp_all add: rank_order)

lemma rank_less_Partial [simp]: "r < PartialMatch \<longleftrightarrow> r = NoMatch"
  by (cases r) (simp_all add: rank_order)

lemma first_best_before:
  assumes "us @ x # vs = us' @ y # vs'" and "length us < length us'"
  shows "x \<in> set us'" and "y \<in> set vs"
proof -
  from assms obtain ws where "us' = us @ ws" "x # vs = ws @ y # vs'"
    by (auto simp: append_eq_append_conv2)
  moreover from this assms(2) have "ws \<noteq> []" by auto
  ultimately show "x \<in> set us'" and "y \<in> set vs" by (auto simp: Cons_eq_append_conv)
qed

lemma first_best_unique:
  assumes "first_best r xs x" and "first_best r xs y"
  shows "x = y"
proof -
  obtain us vs where x: "xs = us @ x # vs" "\<forall>u \<in> set us. r u < r x" "\<forall>v \<in> set vs. r v \<le> r x"
    using assms(1) unfolding first_best_def list_all_iff by blast
  obtain us' vs' where y: "xs = us' @ y # vs'" "\<forall>u \<in> set us'. r u < r y" "\<forall>v \<in> set vs'. r v \<le> r y"
    using assms(2) unfolding first_best_def list_all_iff by blast
  have eq: "us @ x # vs = us' @ y # vs'" using x(1) y(1) by simp
  have "length us = length us'"
    using first_best_before [OF eq] first_best_before [OF eq [symmetric]] x(2,3) y(2,3)
    by (metis linorder_neqE_nat not_le)
  with eq show ?thesis by simp
qed

lemma find_item_first_best:
  assumes "find_item U its name oid = Some x"
  shows "first_best (match_rank U name oid) its x"
proof (cases "find (\<lambda>x. match_rank U name oid x = ExactMatch) its")
  case (Some y)
  with assms have [simp]: "y = x" by (simp add: find_item_rank)
  from Some obtain us vs where "its = us @ x # vs" "match_rank U name oid x = ExactMatch"
    "\<forall>u \<in> set us. match_rank U name oid u \<noteq> ExactMatch"
    by (elim find_split_first) auto
  then show ?thesis
    unfolding first_best_def by (intro exI [of _ us] exI [of _ vs]) (simp add: list_all_iff)
next
  case None
  then have none: "\<forall>u \<in> set its. match_rank U name oid u \<noteq> ExactMatch"
    by (simp add: find_None_iff)
  from None assms obtain us vs where s: "its = us @ x # vs" "match_rank U name oid x \<noteq> NoMatch"
    "\<forall>u \<in> set us. match_rank U name oid u = NoMatch"
    by (auto simp: find_item_rank elim!: find_split_first)
  moreover from s none have "match_rank U name oid x = PartialMatch"
    using rank_cases by auto
  ultimately show ?thesis
    using none unfolding first_best_def
    by (intro exI [of _ us] exI [of _ vs]) (simp add: list_all_iff)
qed

lemma find_item_None:
  "find_item U its name oid = None \<longleftrightarrow> list_all (\<lambda>u. match_rank U name oid u = NoMatch) its"
  by (fastforce simp: find_item_rank find_None_iff list_all_iff split: option.splits dest!: find_Some_in)

lemma find_item_scope: "find_item U its name oid = Some x \<Longrightarrow> x \<in> set its \<and> in_scope oid x"
  by (auto simp: find_item_def Let_def split: option.splits dest!: find_Some_in)

section \<open>Scoped lookup\<close>

lemma lookup_item_scoped_eq:
  assumes "orgs_by_name cache = index_orgs U orgs"
  shows "lookup_item U cache name (Some v) =
    (case orgs_named U orgs v of
       [] \<Rightarrow> Err (VaultNotFound v)
     | [org] \<Rightarrow> ok_or (NotFoundInVault name v (length (items cache)))
         (find_item U (items cache) name (Some (org_id org)))
     | _ \<Rightarrow> Err (VaultAmbiguous v))"
  using assms by (auto simp: lookup_item_def index_orgs_lookup split: list.splits)

lemma lookup_item_no_Panic:
  assumes "orgs_by_name cache = index_orgs U orgs"
  shows "lookup_item U cache name vault \<noteq> Panic"
  using lookup_item_scoped_eq [OF assms]
  by (cases vault) (auto simp: lookup_item_def split: list.splits)

text \<open>A snapshot whose index was built by \<open>index_orgs\<close>, as every decrypted vault's is.\<close>

definition cache_wf :: "ucd \<Rightarrow> vault_cache \<Rightarrow> bool" where
  "cache_wf U cache \<longleftrightarrow> (\<exists>orgs. orgs_by_name cache = index_orgs U orgs)"

lemma decrypt_vault_wf: "cache_wf U (fst (decrypt_vault H U P sync sk))"
  by (auto simp: cache_wf_def decrypt_vault_eq Let_def)

lemma lookup_wf_no_Panic: "cache_wf U cache \<Longrightarrow> lookup_item U cache name vault \<noteq> Panic"
  unfolding cache_wf_def using lookup_item_no_Panic by blast

lemma lookup_item_Ok_member:
  "lookup_item U cache name vault = Ok x \<Longrightarrow> x \<in> set (items cache)"
  by (auto simp: lookup_item_def outcome_iffs dest!: find_item_scope split: option.splits if_splits list.splits)

section \<open>Extraction\<close>

text \<open>The values in the documented priority order.\<close>

definition secret_candidates :: "decrypted_item \<Rightarrow> string list" where
  "secret_candidates item =
     [password item] @ List.map_filter (map_of (item_fields item)) secret_field_names
       @ [item_notes item] @ map snd (item_fields item)"

lemma first_named_field_find:
  "first_named_field m ns = find (\<lambda>v. v \<noteq> []) (List.map_filter (map_of m) ns)"
  by (induction ns) (auto simp: List.map_filter_def split: option.splits)

lemma find_append: "find P (xs @ ys) = (case find P xs of Some x \<Rightarrow> Some x | None \<Rightarrow> find P ys)"
  by (induction xs) auto

lemma extract_secret_find:
  "extract_secret item = (case find (\<lambda>v. v \<noteq> []) (secret_candidates item) of Some v \<Rightarrow> v | None \<Rightarrow> [])"
  by (auto simp: extract_secret_def secret_candidates_def first_named_field_find find_append
      split: option.splits)

text \<open>The item with its custom fields in another iteration order.\<close>

definition same_fields :: "decrypted_item \<Rightarrow> decrypted_item \<Rightarrow> bool" where
  "same_fields a b \<longleftrightarrow> password a = password b \<and> item_notes a = item_notes b
     \<and> set (item_fields a) = set (item_fields b)
     \<and> distinct (map fst (item_fields a)) \<and> distinct (map fst (item_fields b))"

definition ordered_by_name :: "decrypted_item \<Rightarrow> bool" where
  "ordered_by_name item \<longleftrightarrow> password item \<noteq> [] \<or> item_notes item \<noteq> []
     \<or> first_named_field (item_fields item) secret_field_names \<noteq> None
     \<or> (\<exists>w. snd ` set (item_fields item) \<subseteq> {[], w})"

lemma same_fields_map_of: "same_fields a b \<Longrightarrow> map_of (item_fields a) = map_of (item_fields b)"
  unfolding same_fields_def by (metis map_of_inject_set)

lemma find_nonempty_two:
  assumes "set vs = set ws" and "set vs \<subseteq> {[], w}"
  shows "find (\<lambda>v. v \<noteq> []) vs = find (\<lambda>v. v \<noteq> []) ws"
proof -
  have one: "find (\<lambda>v. v \<noteq> []) us = (if w \<in> set us \<and> w \<noteq> [] then Some w else None)"
    if "set us \<subseteq> {[], w}" for us
    using that by (induction us) auto
  have "set ws \<subseteq> {[], w}" using assms by blast
  show ?thesis unfolding one [OF assms(2)] one [OF \<open>set ws \<subseteq> {[], w}\<close>] assms(1) by (rule refl)
qed

section \<open>Properties\<close>

text \<open>C29. \<open>find_item\<close> returns the first item of the highest match rank among the items in scope
  (an exact case-insensitive match beats every partial one), and nothing exactly when no item in
  scope contains the name.\<close>

theorem find_item_spec:
  "(find_item U its name oid = Some x \<longleftrightarrow> first_best (match_rank U name oid) its x)
   \<and> (find_item U its name oid = None \<longleftrightarrow> list_all (\<lambda>u. match_rank U name oid u = NoMatch) its)"
proof
  show "find_item U its name oid = Some x \<longleftrightarrow> first_best (match_rank U name oid) its x"
  proof
    assume best: "first_best (match_rank U name oid) its x"
    then have "find_item U its name oid \<noteq> None"
      by (auto simp: find_item_None first_best_def list_all_iff)
    then obtain y where y: "find_item U its name oid = Some y" by blast
    moreover have "y = x"
      by (rule first_best_unique [OF find_item_first_best [OF y] best])
    ultimately show "find_item U its name oid = Some x" by simp
  qed (rule find_item_first_best)
qed (rule find_item_None)

text \<open>C8. Over a snapshot's organization index, a scoped lookup is decided by the organizations
  whose name equals the vault's up to case: none is \<open>VaultNotFound\<close>, several are
  \<open>VaultAmbiguous\<close>, and with exactly one the search is confined to it, a miss being
  \<open>NotFoundInVault\<close>. It never falls back to another vault and never panics.\<close>

theorem lookup_item_scoped:
  assumes "orgs_by_name cache = index_orgs U orgs"
  shows "lookup_item U cache name (Some v) =
    (case orgs_named U orgs v of
       [] \<Rightarrow> Err (VaultNotFound v)
     | [org] \<Rightarrow> (case find_item U (items cache) name (Some (org_id org)) of
           Some x \<Rightarrow> Ok x | None \<Rightarrow> Err (NotFoundInVault name v (length (items cache))))
     | _ \<Rightarrow> Err (VaultAmbiguous v))"
  unfolding lookup_item_scoped_eq [OF assms] ok_or_def by (rule refl)

theorem lookup_item_scoped_witness:
  "lookup_item toy_ucd (fst (decrypt_vault id toy_ucd toy_prims demo_sync demo_key)) ''DB'' (Some ''apollo'')
     = Ok (demo_item ''c2'' (Some ''o1'') ''db'' ''shared'')"
proof -
  have "orgs_by_name (fst (decrypt_vault id toy_ucd toy_prims demo_sync demo_key))
      = index_orgs toy_ucd demo_orgs" by (simp add: demo_vault)
  note eq = lookup_item_scoped [OF this, of "''DB''" "''apollo''"]
  have "to_lowercase toy_ucd ''Apollo'' = ''apollo''" "to_lowercase toy_ucd ''apollo'' = ''apollo''"
    "to_lowercase toy_ucd ''DB'' = ''db''" "to_lowercase toy_ucd ''db'' = ''db''"
    by (simp_all add: to_lowercase_ascii is_ascii_def ascii_lower_def Let_def char_of_eq_iff)
  then show ?thesis
    unfolding eq by (simp add: demo_vault orgs_named_def demo_orgs_def find_item_def in_scope_def demo_item_def)
qed

text \<open>The extracted secret is the first non-empty value in the documented priority: the login
  password, the named custom fields in their order, the notes, then the other custom fields.\<close>

theorem extract_secret_priority:
  "extract_secret item = (case filter (\<lambda>v. v \<noteq> []) (secret_candidates item) of [] \<Rightarrow> [] | v # _ \<Rightarrow> v)"
proof -
  have "find P xs = (case filter P xs of [] \<Rightarrow> None | v # _ \<Rightarrow> Some v)" for P and xs :: "string list"
    by (induction xs) auto
  then show ?thesis by (simp add: extract_secret_find split: list.splits)
qed

text \<open>The extracted secret does not depend on the iteration order of the custom fields when
  one of the first three sources provides it, or when the fields hold at most one non-empty value.\<close>

theorem extract_secret_order_independent:
  assumes "same_fields a b" and "ordered_by_name a"
  shows "extract_secret a = extract_secret b"
proof -
  have named: "first_named_field (item_fields a) ns = first_named_field (item_fields b) ns" for ns
    by (simp add: first_named_field_find same_fields_map_of [OF assms(1)])
  have same: "password a = password b" "item_notes a = item_notes b"
    "set (map snd (item_fields a)) = set (map snd (item_fields b))"
    using assms(1) by (simp_all add: same_fields_def)
  from assms(2) consider
      "password a \<noteq> [] \<or> item_notes a \<noteq> [] \<or> first_named_field (item_fields a) secret_field_names \<noteq> None"
    | w where "set (map snd (item_fields a)) \<subseteq> {[], w}"
    by (auto simp: ordered_by_name_def)
  then show ?thesis
  proof cases
    case 1
    then show ?thesis using same named by (auto simp: extract_secret_def split: option.splits)
  next
    case (2 w)
    from find_nonempty_two [OF same(3) 2] show ?thesis
      by (simp add: extract_secret_def same(1,2) named split: option.split)
  qed
qed

theorem extract_secret_order_independent_witness:
  "extract_secret ((demo_item ''c'' None ''n'' [])\<lparr>item_fields := [(''a'', ''1''), (''token'', ''2'')]\<rparr>)
   = extract_secret ((demo_item ''c'' None ''n'' [])\<lparr>item_fields := [(''token'', ''2''), (''a'', ''1'')]\<rparr>)"
  by (rule extract_secret_order_independent)
    (auto simp: same_fields_def ordered_by_name_def demo_item_def secret_field_names_def)

text \<open>Outside those cases the value does depend on the iteration order of a \<open>HashMap\<close>, which
  Rust leaves open and randomizes: two orders of the same two custom fields give two secrets, so
  "first non-empty field value" names no particular field.\<close>

theorem extract_secret_order_dependent:
  "\<exists>a b. same_fields a b \<and> extract_secret a \<noteq> extract_secret b"
proof (intro exI conjI)
  let ?a = "(demo_item ''c'' None ''n'' [])\<lparr>item_fields := [(''user'', ''1''), (''pin'', ''2'')]\<rparr>"
  let ?b = "(demo_item ''c'' None ''n'' [])\<lparr>item_fields := [(''pin'', ''2''), (''user'', ''1'')]\<rparr>"
  show "same_fields ?a ?b" by (auto simp: same_fields_def demo_item_def)
  show "extract_secret ?a \<noteq> extract_secret ?b"
    by (simp add: extract_secret_def demo_item_def secret_field_names_def)
qed

end
