(* ===== verification/Effects.thy ===== *)
theory Effects
  imports VaultSync
begin

text \<open>
  The effects of the program and the outside world.

  An effectful Rust function is an \<open>action\<close>: a function of an explicit state to an outcome and the
  new state. What the process does to the outside (requests, clock readings, sleeps, Kubernetes
  calls) is appended to a history, and every answer of the outside is a function of the history
  that ends with the question: the record \<open>env\<close> holds these functions and is an argument of
  every operation that asks. (\<open>stop_at\<close> answers which arm of a \<open>select\<close> wins: the termination signal
  or cancellation, or the timer.) A theorem for all \<open>env\<close> thus holds for every server, clock and
  cluster. The deserializers of the response types (serde, a crate) are fields of it as well.
\<close>

section \<open>JSON values\<close>

datatype json =
    JNull
  | JBool bool
  | JNum int
  | JStr string
  | JArr "json list"
  | JObj "string \<rightharpoonup> json"

abbreviation jobj :: "(string \<times> json) list \<Rightarrow> json" where
  "jobj kvs \<equiv> JObj (map_of kvs)"

section \<open>Requests, events and answers\<close>

datatype http_body = NoBody | JsonBody json | FormBody "(string \<times> string) list"

datatype http_request =
    HttpGet string string
  | HttpPost string http_body

text \<open>\<open>HttpGet url token\<close> carries the token as bearer authorization. A response body may fail to
  arrive (\<open>Inl\<close> the transport error).\<close>

record http_response =
  http_status :: nat
  http_body_read :: "string + bytes"

datatype event =
    HttpSent http_request
  | ClockRead
  | WallClockRead
  | Slept nat
  | SecretGet string string
  | SecretCreate string json
  | SecretApply string string json
  | StatusPatch string string json
  | LeaseTry
  | LeaseStepDown
  | Ticked

type_synonym history = "event list"

text \<open>KDF parameters returned by \<open>/identity/accounts/prelogin\<close>.\<close>

record prelogin_response =
  kdf :: u32
  kdf_iterations :: u32
  kdf_memory :: "u32 option"
  kdf_parallelism :: "u32 option"

text \<open>Token response of \<open>/identity/connect/token\<close>; \<open>tok_key\<close> is empty for the API-key grant.\<close>

record token_response =
  tok_access_token :: string
  tok_expires_in :: u64
  tok_refresh_token :: string
  tok_key :: string

text \<open>Instants are nanoseconds of the monotonic clock, as Unix keeps them: 64-bit signed seconds.\<close>

type_synonym instant = int

record 'rsa env =
  http_answer :: "history \<Rightarrow> string + http_response"
  clock_at :: "history \<Rightarrow> instant"
  utc_at :: "history \<Rightarrow> string"
  secret_exists :: "history \<Rightarrow> string + bool"
  kube_write :: "history \<Rightarrow> string option"
  lease_answer :: "history \<Rightarrow> string + bool"
  lease_release :: "history \<Rightarrow> string option"
  stop_at :: "history \<Rightarrow> bool"
  text_of :: "bytes \<Rightarrow> string"
  de_prelogin :: "bytes \<Rightarrow> string + prelogin_response"
  de_token :: "bytes \<Rightarrow> string + token_response"
  de_profile_key :: "bytes \<Rightarrow> string + string"
  de_sync :: "bytes \<Rightarrow> string + sync_response"
  prims_of :: "'rsa prims"
  ucd_of :: ucd
  hash_iter :: hash_order
  debug_str :: "string \<Rightarrow> string"
  overflow_checks :: bool

section \<open>Actions\<close>

type_synonym ('s, 'e, 'a) action = "'s \<Rightarrow> ('e, 'a) outcome \<times> 's"

definition areturn :: "'a \<Rightarrow> ('s, 'e, 'a) action" where
  "areturn a s = (Ok a, s)"

definition afail :: "'e \<Rightarrow> ('s, 'e, 'a) action" where
  "afail e s = (Err e, s)"

definition alift :: "('e, 'a) outcome \<Rightarrow> ('s, 'e, 'a) action" where
  "alift m s = (m, s)"

text \<open>\<open>match m.await { Ok(a) => f a, Err(e) => g e }\<close>; a panic unwinds.\<close>

definition amatch ::
    "('s, 'e, 'a) action \<Rightarrow> ('a \<Rightarrow> ('s, 'f, 'b) action) \<Rightarrow> ('e \<Rightarrow> ('s, 'f, 'b) action) \<Rightarrow> ('s, 'f, 'b) action"
  where
  "amatch m f g s =
     (case m s of
        (Ok a, s') \<Rightarrow> f a s'
      | (Err e, s') \<Rightarrow> g e s'
      | (Panic, s') \<Rightarrow> (Panic, s'))"

text \<open>The \<open>?\<close> operator, without and with a conversion of the error.\<close>

definition abind :: "('s, 'e, 'a) action \<Rightarrow> ('a \<Rightarrow> ('s, 'e, 'b) action) \<Rightarrow> ('s, 'e, 'b) action" where
  "abind m f = amatch m f afail"

definition atry :: "('e \<Rightarrow> 'f) \<Rightarrow> ('s, 'e, 'a) action \<Rightarrow> ('a \<Rightarrow> ('s, 'f, 'b) action) \<Rightarrow> ('s, 'f, 'b) action" where
  "atry h m f = amatch m f (\<lambda>e. afail (h e))"

definition aget :: "('s \<Rightarrow> 'a) \<Rightarrow> ('s, 'e, 'a) action" where
  "aget f s = (Ok (f s), s)"

definition amodify :: "('s \<Rightarrow> 's) \<Rightarrow> ('s, 'e, unit) action" where
  "amodify f s = (Ok (), f s)"

text \<open>An action of a component on the part of a larger state it knows.\<close>

definition azoom :: "('t \<Rightarrow> 's) \<Rightarrow> (('s \<Rightarrow> 's) \<Rightarrow> 't \<Rightarrow> 't) \<Rightarrow> ('s, 'e, 'a) action \<Rightarrow> ('t, 'e, 'a) action" where
  "azoom get upd m t = (case m (get t) of (r, s') \<Rightarrow> (r, upd (\<lambda>_. s') t))"

lemma amatch_cases [outcome_simps]:
  "m s = (Ok a, s') \<Longrightarrow> amatch m f g s = f a s'"
  "m s = (Err e, s') \<Longrightarrow> amatch m f g s = g e s'"
  "m s = (Panic, s') \<Longrightarrow> amatch m f g s = (Panic, s')"
  by (simp_all add: amatch_def)

lemma abind_cases [outcome_simps]:
  "m s = (Ok a, s') \<Longrightarrow> abind m f s = f a s'"
  "m s = (Err e, s') \<Longrightarrow> abind m f s = (Err e, s')"
  "m s = (Panic, s') \<Longrightarrow> abind m f s = (Panic, s')"
  by (simp_all add: abind_def amatch_def afail_def)

lemma atry_cases [outcome_simps]:
  "m s = (Ok a, s') \<Longrightarrow> atry h m f s = f a s'"
  "m s = (Err e, s') \<Longrightarrow> atry h m f s = (Err (h e), s')"
  "m s = (Panic, s') \<Longrightarrow> atry h m f s = (Panic, s')"
  by (simp_all add: atry_def amatch_def afail_def)

lemmas action_defs =
  areturn_def afail_def alift_def aget_def amodify_def azoom_def amatch_def abind_def atry_def

lemma abind_eq_Ok:
  "abind m f s = (Ok b, t) \<longleftrightarrow> (\<exists>a s'. m s = (Ok a, s') \<and> f a s' = (Ok b, t))"
  by (auto simp: abind_def amatch_def afail_def split: prod.splits outcome.splits)

lemma atry_eq_Ok:
  "atry h m f s = (Ok b, t) \<longleftrightarrow> (\<exists>a s'. m s = (Ok a, s') \<and> f a s' = (Ok b, t))"
  by (auto simp: atry_def amatch_def afail_def split: prod.splits outcome.splits)

lemma amatch_eq_Ok:
  "amatch m f g s = (Ok b, t) \<longleftrightarrow>
     (\<exists>s'. (\<exists>a. m s = (Ok a, s') \<and> f a s' = (Ok b, t)) \<or> (\<exists>e. m s = (Err e, s') \<and> g e s' = (Ok b, t)))"
  by (auto simp: amatch_def split: prod.splits outcome.splits)

lemma simple_eq_Ok [simp]:
  "areturn a s = (Ok b, t) \<longleftrightarrow> b = a \<and> t = s"
  "afail e s = (Ok b, t) \<longleftrightarrow> False"
  "alift m s = (Ok b, t) \<longleftrightarrow> m = Ok b \<and> t = s"
  "aget g s = (Ok b, t) \<longleftrightarrow> b = g s \<and> t = s"
  "amodify k s = (Ok u, t) \<longleftrightarrow> t = k s"
  by (auto simp: action_defs)

lemmas action_Ok = abind_eq_Ok atry_eq_Ok amatch_eq_Ok

section \<open>The primitive effects\<close>

text \<open>Send a request; the answer depends on everything that happened up to it.\<close>

definition http_send :: "'rsa env \<Rightarrow> http_request \<Rightarrow> (history, string, http_response) action" where
  "http_send E req h = (let h' = h @ [HttpSent req] in (of_sum (http_answer E h'), h'))"

definition read_clock :: "'rsa env \<Rightarrow> (history, 'e, instant) action" where
  "read_clock E h = (let h' = h @ [ClockRead] in (Ok (clock_at E h'), h'))"

definition read_utc :: "'rsa env \<Rightarrow> (history, 'e, string) action" where
  "read_utc E h = (let h' = h @ [WallClockRead] in (Ok (utc_at E h'), h'))"

text \<open>Sleep for a duration in nanoseconds.\<close>

definition sleep_for :: "nat \<Rightarrow> (history, 'e, unit) action" where
  "sleep_for d h = (Ok (), h @ [Slept d])"

definition is_success :: "http_response \<Rightarrow> bool" where
  "is_success r \<longleftrightarrow> 200 \<le> http_status r \<and> http_status r \<le> 299"

text \<open>\<open>resp.text().await.unwrap_or_default()\<close> and \<open>resp.json::<T>().await\<close>.\<close>

definition text_or_default :: "'rsa env \<Rightarrow> http_response \<Rightarrow> string" where
  "text_or_default E r = (case http_body_read r of Inl _ \<Rightarrow> [] | Inr b \<Rightarrow> text_of E b)"

definition json_body :: "(bytes \<Rightarrow> string + 'a) \<Rightarrow> http_response \<Rightarrow> (string, 'a) outcome" where
  "json_body de r = (case http_body_read r of Inl e \<Rightarrow> Err e | Inr b \<Rightarrow> of_sum (de b))"

lemma json_body_no_Panic [simp]: "json_body de r \<noteq> Panic"
  by (simp add: json_body_def split: sum.splits)

text \<open>\<open>Instant + Duration\<close> panics when the seconds leave 64 signed bits; \<open>checked_sub\<close> returns
  \<open>None\<close>. Durations are nanoseconds.\<close>

definition nanos :: "nat \<Rightarrow> nat" where
  "nanos secs = secs * 1000000000"

definition instant_add :: "instant \<Rightarrow> nat \<Rightarrow> ('e, instant) outcome" where
  "instant_add t d = (let u = t + int d in if u div 1000000000 < 2 ^ 63 then Ok u else Panic)"

definition instant_checked_sub :: "instant \<Rightarrow> nat \<Rightarrow> instant option" where
  "instant_checked_sub t d =
     (let u = t - int d in if - (2 ^ 63) \<le> u div 1000000000 then Some u else None)"

definition saturating_duration_since :: "instant \<Rightarrow> instant \<Rightarrow> nat" where
  "saturating_duration_since later earlier = nat (later - earlier)"

section \<open>What an action adds to the history\<close>

text \<open>\<open>adds tr R m\<close>: from every state the action extends the history \<open>tr\<close>, by events that satisfy \<open>R\<close>.\<close>

named_theorems adds_rules "what actions add to the history"

definition adds :: "('s \<Rightarrow> history) \<Rightarrow> (history \<Rightarrow> bool) \<Rightarrow> ('s, 'e, 'a) action \<Rightarrow> bool" where
  "adds tr R m \<longleftrightarrow> (\<forall>s. \<exists>new. tr (snd (m s)) = tr s @ new \<and> R new)"

text \<open>The number of requests in a stretch of history.\<close>

fun is_http :: "event \<Rightarrow> bool" where
  "is_http (HttpSent r) = True"
| "is_http _ = False"

definition http_count :: "history \<Rightarrow> nat" where
  "http_count h = length (filter is_http h)"

lemma http_count_simps [simp]:
  "http_count [] = 0"
  "http_count (e # h) = (if is_http e then 1 else 0) + http_count h"
  "http_count (h @ h') = http_count h + http_count h'"
  by (simp_all add: http_count_def)

definition at_most :: "nat \<Rightarrow> history \<Rightarrow> bool" where
  "at_most n h \<longleftrightarrow> http_count h \<le> n"

lemma addsD: "adds tr R m \<Longrightarrow> \<exists>new. tr (snd (m s)) = tr s @ new \<and> R new"
  by (simp add: adds_def)

lemma adds_weaken: "adds tr (at_most m) act \<Longrightarrow> m \<le> n \<Longrightarrow> adds tr (at_most n) act"
  unfolding adds_def at_most_def using le_trans by blast

lemma adds_simple [adds_rules]:
  "adds tr (at_most 0) (areturn a)" "adds tr (at_most 0) (afail e)" "adds tr (at_most 0) (alift r)"
  "adds tr (at_most 0) (aget g)"
  by (simp_all add: adds_def at_most_def action_defs)

lemma adds_amatch [adds_rules]:
  assumes m: "adds tr (at_most a) m" and f: "\<And>x. adds tr (at_most b) (f x)"
    and g: "\<And>x. adds tr (at_most c) (g x)"
  shows "adds tr (at_most (a + max b c)) (amatch m f g)"
  unfolding adds_def
proof
  fix s
  obtain r s' where ms: "m s = (r, s')" by (cases "m s")
  obtain n1 where n1: "tr s' = tr s @ n1" "at_most a n1"
    using addsD [OF m, of s] ms by auto
  note fs = addsD [OF f, where s = s'] and gs = addsD [OF g, where s = s']
  show "\<exists>new. tr (snd (amatch m f g s)) = tr s @ new \<and> at_most (a + max b c) new"
  proof (cases r)
    case (Ok x)
    with fs [of x] n1 show ?thesis by (fastforce simp: amatch_def ms at_most_def)
  next
    case (Err e)
    with gs [of e] n1 show ?thesis by (fastforce simp: amatch_def ms at_most_def)
  next
    case Panic
    with n1 show ?thesis by (auto simp: amatch_def ms at_most_def)
  qed
qed

lemma adds_abind [adds_rules]:
  "adds tr (at_most a) m \<Longrightarrow> (\<And>x. adds tr (at_most b) (f x)) \<Longrightarrow> adds tr (at_most (a + b)) (abind m f)"
  using adds_amatch [of tr a m b f 0 afail] by (simp add: abind_def adds_simple)

lemma adds_atry [adds_rules]:
  "adds tr (at_most a) m \<Longrightarrow> (\<And>x. adds tr (at_most b) (f x)) \<Longrightarrow> adds tr (at_most (a + b)) (atry h m f)"
  using adds_amatch [of tr a m b f 0 "\<lambda>e. afail (h e)"] by (simp add: atry_def adds_simple)

lemma adds_if [adds_rules]:
  assumes "adds tr (at_most a) m" and "adds tr (at_most b) m'"
  shows "adds tr (at_most (max a b)) (if t then m else m')"
  using adds_weaken [OF assms(1), of "max a b"] adds_weaken [OF assms(2), of "max a b"] by simp

lemma adds_case_option [adds_rules]:
  assumes "adds tr (at_most a) m" and "\<And>x. adds tr (at_most b) (f x)"
  shows "adds tr (at_most (max a b)) (case x of None \<Rightarrow> m | Some y \<Rightarrow> f y)"
  using adds_weaken [OF assms(1), of "max a b"] adds_weaken [OF assms(2), of "max a b"]
  by (simp split: option.split)

lemma adds_case_prod [adds_rules]:
  "(\<And>x y. adds tr R (f x y)) \<Longrightarrow> adds tr R (case p of (x, y) \<Rightarrow> f x y)"
  by (simp split: prod.split)

lemma adds_zoom:
  "adds (\<lambda>h. h) R m \<Longrightarrow> (\<And>t f. tr (upd f t) = f (tr t)) \<Longrightarrow> adds tr R (azoom tr upd m)"
  by (auto simp: adds_def azoom_def split: prod.splits) (metis snd_conv)

lemma adds_prims [adds_rules]:
  "adds (\<lambda>h. h) (at_most 1) (http_send E req)"
  "adds (\<lambda>h. h) (at_most 0) (read_clock E)"
  "adds (\<lambda>h. h) (at_most 0) (read_utc E)"
  "adds (\<lambda>h. h) (at_most 0) (sleep_for k)"
  by (simp_all add: adds_def at_most_def http_send_def read_clock_def read_utc_def sleep_for_def Let_def)

section \<open>What an action leaves alone\<close>

text \<open>\<open>frames f m\<close>: the part \<open>f\<close> of the state is the same after the action, however it ends.\<close>

named_theorems frame_rules "parts of the state an action leaves alone"

definition frames :: "('s \<Rightarrow> 'p) \<Rightarrow> ('s, 'e, 'a) action \<Rightarrow> bool" where
  "frames f m \<longleftrightarrow> (\<forall>s. f (snd (m s)) = f s)"

lemma framesD: "frames f m \<Longrightarrow> f (snd (m s)) = f s"
  by (simp add: frames_def)

lemma framesD_eq: "frames f m \<Longrightarrow> m s = (r, s') \<Longrightarrow> f s' = f s"
  using framesD [of f m s] by simp

lemma frames_simple [frame_rules]:
  "frames f (areturn a)" "frames f (afail e)" "frames f (alift r)" "frames f (aget g)"
  by (simp_all add: frames_def action_defs)

lemma frames_amodify [frame_rules]: "(\<And>s. f (k s) = f s) \<Longrightarrow> frames f (amodify k)"
  by (simp add: frames_def amodify_def)

lemma frames_azoom [frame_rules]: "(\<And>s k. f (upd k s) = f s) \<Longrightarrow> frames f (azoom get upd m)"
  by (auto simp: frames_def azoom_def split: prod.splits)

lemma frames_amatch [frame_rules]:
  assumes "frames f m" and "\<And>x. frames f (k x)" and "\<And>x. frames f (g x)"
  shows "frames f (amatch m k g)"
  using assms by (auto simp: frames_def amatch_def split: prod.splits outcome.splits) (metis snd_conv)+

lemma frames_abind [frame_rules]: "frames f m \<Longrightarrow> (\<And>x. frames f (k x)) \<Longrightarrow> frames f (abind m k)"
  unfolding abind_def by (intro frame_rules)

lemma frames_atry [frame_rules]: "frames f m \<Longrightarrow> (\<And>x. frames f (k x)) \<Longrightarrow> frames f (atry h m k)"
  unfolding atry_def by (intro frame_rules)

lemma frames_if [frame_rules]: "frames f m \<Longrightarrow> frames f m' \<Longrightarrow> frames f (if t then m else m')"
  by simp

lemma frames_case_prod [frame_rules]:
  "(\<And>x y. frames f (k x y)) \<Longrightarrow> frames f (case p of (x, y) \<Rightarrow> k x y)"
  by (simp split: prod.split)

lemma frames_case_option [frame_rules]:
  "frames f m \<Longrightarrow> (\<And>y. frames f (k y)) \<Longrightarrow> frames f (case x of None \<Rightarrow> m | Some y \<Rightarrow> k y)"
  by (simp split: option.split)

section \<open>Actions that make no Kubernetes call\<close>

named_theorems quiet_rules "actions that make no Kubernetes call"

fun is_kube :: "event \<Rightarrow> bool" where
  "is_kube (SecretGet ns n) = True"
| "is_kube (SecretCreate ns b) = True"
| "is_kube (SecretApply ns n b) = True"
| "is_kube (StatusPatch ns n p) = True"
| "is_kube _ = False"

fun client_event :: "event \<Rightarrow> bool" where
  "client_event (HttpSent r) = True"
| "client_event ClockRead = True"
| "client_event WallClockRead = True"
| "client_event (Slept d) = True"
| "client_event Ticked = True"
| "client_event _ = False"

text \<open>Only requests, clock readings, sleeps and ticks: no Kubernetes call and no lease operation.\<close>

definition quiet :: "history \<Rightarrow> bool" where
  "quiet h \<longleftrightarrow> list_all client_event h"

lemma client_event_kinds:
  "client_event e \<Longrightarrow> \<not> is_kube e \<and> e \<noteq> LeaseTry \<and> e \<noteq> LeaseStepDown"
  by (cases e) simp_all

lemma quiet_kube: "quiet h \<Longrightarrow> filter is_kube h = []"
  by (auto simp: quiet_def list_all_iff filter_empty_conv dest: client_event_kinds)

lemma quiet_Nil [simp]: "quiet []"
  by (simp add: quiet_def)

lemma quiet_append [simp]: "quiet (a @ b) \<longleftrightarrow> quiet a \<and> quiet b"
  by (simp add: quiet_def)

lemma quiet_simple [quiet_rules]:
  "adds tr quiet (areturn a)" "adds tr quiet (afail e)" "adds tr quiet (alift r)" "adds tr quiet (aget g)"
  by (simp_all add: adds_def quiet_def action_defs)

lemma quiet_amodify [quiet_rules]: "(\<And>s. tr (k s) = tr s) \<Longrightarrow> adds tr quiet (amodify k)"
  by (simp add: adds_def quiet_def amodify_def)

lemma quiet_amatch [quiet_rules]:
  assumes m: "adds tr quiet m" and f: "\<And>x. adds tr quiet (f x)" and g: "\<And>x. adds tr quiet (g x)"
  shows "adds tr quiet (amatch m f g)"
  unfolding adds_def
proof
  fix s
  obtain r s' where ms: "m s = (r, s')" by (cases "m s")
  obtain n1 where n1: "tr s' = tr s @ n1" "quiet n1" using addsD [OF m, of s] ms by auto
  note fs = addsD [OF f, where s = s'] and gs = addsD [OF g, where s = s']
  show "\<exists>new. tr (snd (amatch m f g s)) = tr s @ new \<and> quiet new"
  proof (cases r)
    case (Ok x)
    with fs [of x] n1 show ?thesis by (fastforce simp: amatch_def ms)
  next
    case (Err e)
    with gs [of e] n1 show ?thesis by (fastforce simp: amatch_def ms)
  next
    case Panic
    with n1 show ?thesis by (auto simp: amatch_def ms)
  qed
qed

lemma quiet_abind [quiet_rules]: "adds tr quiet m \<Longrightarrow> (\<And>x. adds tr quiet (f x)) \<Longrightarrow> adds tr quiet (abind m f)"
  unfolding abind_def by (intro quiet_rules)

lemma quiet_atry [quiet_rules]: "adds tr quiet m \<Longrightarrow> (\<And>x. adds tr quiet (f x)) \<Longrightarrow> adds tr quiet (atry h m f)"
  unfolding atry_def by (intro quiet_rules)

lemma quiet_prims [quiet_rules]:
  "adds (\<lambda>h. h) quiet (http_send E req)"
  "adds (\<lambda>h. h) quiet (read_clock E)"
  "adds (\<lambda>h. h) quiet (read_utc E)"
  "adds (\<lambda>h. h) quiet (sleep_for k)"
  by (simp_all add: adds_def quiet_def http_send_def read_clock_def read_utc_def sleep_for_def Let_def)

lemma adds_case_prod_any [quiet_rules]:
  "(\<And>x y. adds tr R (f x y)) \<Longrightarrow> adds tr R (case p of (x, y) \<Rightarrow> f x y)"
  by (simp split: prod.split)

lemma adds_if_any [quiet_rules]: "adds tr R m \<Longrightarrow> adds tr R m' \<Longrightarrow> adds tr R (if t then m else m')"
  by simp

section \<open>Requests with a typed answer\<close>

text \<open>The shape the API calls share: send; a status outside 2xx is an error that carries the body;
  otherwise the body is deserialized.\<close>

definition send_json ::
    "'rsa env \<Rightarrow> (string \<Rightarrow> 'e) \<Rightarrow> (nat \<Rightarrow> string \<Rightarrow> 'e) \<Rightarrow> (bytes \<Rightarrow> string + 'a) \<Rightarrow> http_request
       \<Rightarrow> (history, 'e, 'a) action" where
  "send_json E http_err server_err de req =
     atry http_err (http_send E req) (\<lambda>resp.
       if \<not> is_success resp
       then afail (server_err (http_status resp) (text_or_default E resp))
       else alift (map_err http_err (json_body de resp)))"

lemma send_json_adds [adds_rules]: "adds (\<lambda>h. h) (at_most 1) (send_json E he se de req)"
  unfolding send_json_def by (rule adds_weaken, (rule adds_rules)+) simp

lemma send_json_quiet [quiet_rules]: "adds (\<lambda>h. h) quiet (send_json E he se de req)"
  unfolding send_json_def by (intro quiet_rules)

lemma send_json_sent: "snd (send_json E he se de req h) = h @ [HttpSent req]"
  by (auto simp: send_json_def http_send_def atry_def amatch_def Let_def afail_def alift_def
      split: outcome.splits)

lemma send_json_no_Panic [simp]: "fst (send_json E he se de req h) \<noteq> Panic"
  by (auto simp: send_json_def http_send_def atry_def amatch_def Let_def afail_def alift_def
      split: outcome.splits)

lemma send_json_Ok:
  "send_json E he se de req h = (Ok a, h') \<longleftrightarrow>
     h' = h @ [HttpSent req] \<and>
     (\<exists>resp. http_answer E h' = Inr resp \<and> is_success resp \<and> json_body de resp = Ok a)"
  by (auto simp: send_json_def http_send_def action_Ok Let_def split: if_splits)

end
