(* ===== verification/Auth.thy ===== *)
theory Auth
  imports Effects
begin

text \<open>
  \<open>src/vault/auth.rs\<close>: prelogin, the two token grants, the profile key request, the full
  authentication and the token refresh, as actions over the history of requests.
\<close>

section \<open>Operations\<close>

datatype auth_error =
    AuthHttp string
  | AuthServer nat string
  | AuthCrypto crypto_error
  | NoRefreshToken
  | EmptyProfileKey

fun show_auth_error :: "auth_error \<Rightarrow> string" where
  "show_auth_error (AuthHttp e) = ''HTTP error: '' @ e"
| "show_auth_error (AuthServer status body) = ''server returned '' @ show_nat status @ '': '' @ body"
| "show_auth_error (AuthCrypto e) = ''crypto error: '' @ show_crypto_error e"
| "show_auth_error NoRefreshToken = ''no refresh token available''"
| "show_auth_error EmptyProfileKey = ''profile key is empty''"

definition prelogin_request :: "string \<Rightarrow> string \<Rightarrow> http_request" where
  "prelogin_request base_url email =
     HttpPost (base_url @ ''/identity/accounts/prelogin'') (JsonBody (jobj [(''email'', JStr email)]))"

definition token_request :: "string \<Rightarrow> (string \<times> string) list \<Rightarrow> http_request" where
  "token_request base_url params = HttpPost (base_url @ ''/identity/connect/token'') (FormBody params)"

definition sync_request :: "string \<Rightarrow> string \<Rightarrow> http_request" where
  "sync_request base_url access_token = HttpGet (base_url @ ''/api/sync'') access_token"

definition prelogin :: "'rsa env \<Rightarrow> string \<Rightarrow> string \<Rightarrow> (history, auth_error, prelogin_response) action" where
  "prelogin E base_url email =
     send_json E AuthHttp AuthServer (de_prelogin E) (prelogin_request base_url email)"

definition do_token_request ::
    "'rsa env \<Rightarrow> string \<Rightarrow> (string \<times> string) list \<Rightarrow> (history, auth_error, token_response) action" where
  "do_token_request E base_url params =
     send_json E AuthHttp AuthServer (de_token E) (token_request base_url params)"

definition password_params :: "string \<Rightarrow> string \<Rightarrow> string \<Rightarrow> (string \<times> string) list" where
  "password_params email hashed_password device_id =
     [(''grant_type'', ''password''), (''username'', email), (''password'', hashed_password),
      (''scope'', ''api offline_access''), (''client_id'', ''web''), (''deviceType'', ''14''),
      (''deviceIdentifier'', device_id), (''deviceName'', ''vaultwarden-operator'')]"

definition api_key_params :: "string \<Rightarrow> string \<Rightarrow> string \<Rightarrow> (string \<times> string) list" where
  "api_key_params client_id client_secret device_id =
     [(''grant_type'', ''client_credentials''), (''client_id'', client_id),
      (''client_secret'', client_secret), (''scope'', ''api''), (''deviceType'', ''14''),
      (''deviceIdentifier'', device_id), (''deviceName'', ''vaultwarden-operator'')]"

definition refresh_params :: "string \<Rightarrow> (string \<times> string) list" where
  "refresh_params refresh_tok =
     [(''grant_type'', ''refresh_token''), (''refresh_token'', refresh_tok), (''client_id'', ''web'')]"

definition login_with_password ::
    "'rsa env \<Rightarrow> string \<Rightarrow> string \<Rightarrow> string \<Rightarrow> string \<Rightarrow> (history, auth_error, token_response) action" where
  "login_with_password E base_url email hashed_password device_id =
     do_token_request E base_url (password_params email hashed_password device_id)"

definition login_with_api_key ::
    "'rsa env \<Rightarrow> string \<Rightarrow> string \<Rightarrow> string \<Rightarrow> string \<Rightarrow> (history, auth_error, token_response) action" where
  "login_with_api_key E base_url client_id client_secret device_id =
     do_token_request E base_url (api_key_params client_id client_secret device_id)"

definition fetch_profile_key :: "'rsa env \<Rightarrow> string \<Rightarrow> string \<Rightarrow> (history, auth_error, string) action" where
  "fetch_profile_key E base_url access_token =
     abind (send_json E AuthHttp AuthServer (de_profile_key E) (sync_request base_url access_token))
       (\<lambda>key. if key = [] then afail EmptyProfileKey else areturn key)"

definition derive_master_key ::
    "'rsa env \<Rightarrow> string \<Rightarrow> string \<Rightarrow> prelogin_response \<Rightarrow> (crypto_error, bytes) outcome" where
  "derive_master_key E pw email pre =
     make_master_key (overflow_checks E) (ucd_of E) (prims_of E) pw email
       (kdf pre) (kdf_iterations pre) (kdf_memory pre) (kdf_parallelism pre)"

text \<open>The grant: API key when both halves are configured, otherwise the hashed password.\<close>

definition log_in ::
    "'rsa env \<Rightarrow> string \<Rightarrow> string \<Rightarrow> string \<Rightarrow> string option \<Rightarrow> string option \<Rightarrow> string \<Rightarrow> bytes
       \<Rightarrow> (history, auth_error, token_response) action" where
  "log_in E base_url email pw client_id client_secret device_id master_key =
     (case (client_id, client_secret) of
        (Some i, Some secret) \<Rightarrow> login_with_api_key E base_url i secret device_id
      | _ \<Rightarrow>
          let hashed = hash_password (prims_of E) pw master_key
          in login_with_password E base_url email hashed device_id)"

definition authenticate ::
    "'rsa env \<Rightarrow> string \<Rightarrow> string \<Rightarrow> string \<Rightarrow> string option \<Rightarrow> string option \<Rightarrow> string
       \<Rightarrow> (history, auth_error, string \<times> string \<times> u64 \<times> symmetric_key) action" where
  "authenticate E base_url email pw client_id client_secret device_id =
     abind (prelogin E base_url email) (\<lambda>pre.
     abind (alift (map_err AuthCrypto (derive_master_key E pw email pre))) (\<lambda>master_key.
     abind (log_in E base_url email pw client_id client_secret device_id master_key) (\<lambda>token_resp.
     abind (if tok_key token_resp = []
            then fetch_profile_key E base_url (tok_access_token token_resp)
            else areturn (tok_key token_resp)) (\<lambda>encrypted.
     abind (alift (map_err AuthCrypto (decrypt_symmetric_key (prims_of E) encrypted master_key))) (\<lambda>sym_key.
       areturn (tok_access_token token_resp, tok_refresh_token token_resp, tok_expires_in token_resp,
                sym_key))))))"

definition refresh_token ::
    "'rsa env \<Rightarrow> string \<Rightarrow> string \<Rightarrow> (history, auth_error, string \<times> string option \<times> u64) action" where
  "refresh_token E base_url refresh_tok =
     (if refresh_tok = [] then afail NoRefreshToken
      else abind (send_json E AuthHttp AuthServer (de_token E)
                    (token_request base_url (refresh_params refresh_tok)))
        (\<lambda>tok.
           let new_rt = (if tok_refresh_token tok = [] then None else Some (tok_refresh_token tok))
           in areturn (tok_access_token tok, new_rt, tok_expires_in tok)))"

section \<open>Which requests are sent\<close>

text \<open>The grant request of a configuration, as a function of the derived master key.\<close>

definition grant_request ::
    "'rsa env \<Rightarrow> string \<Rightarrow> string \<Rightarrow> string \<Rightarrow> string option \<Rightarrow> string option \<Rightarrow> string \<Rightarrow> bytes
       \<Rightarrow> http_request" where
  "grant_request E base_url email pw client_id client_secret device_id master_key =
     token_request base_url
       (if client_id \<noteq> None \<and> client_secret \<noteq> None
        then api_key_params (the client_id) (the client_secret) device_id
        else password_params email (hash_password (prims_of E) pw master_key) device_id)"

lemma log_in_send:
  "log_in E base_url email pw client_id client_secret device_id mk =
     send_json E AuthHttp AuthServer (de_token E)
       (grant_request E base_url email pw client_id client_secret device_id mk)"
  by (simp add: log_in_def grant_request_def login_with_api_key_def login_with_password_def
      do_token_request_def Let_def split: option.split)

lemma fetch_profile_key_sent:
  "snd (fetch_profile_key E base_url tok h) = h @ [HttpSent (sync_request base_url tok)]"
  using send_json_sent [of E AuthHttp AuthServer "de_profile_key E" "sync_request base_url tok" h]
  by (auto simp: fetch_profile_key_def action_defs split: prod.splits outcome.splits)

lemma fetch_profile_key_adds [adds_rules]: "adds (\<lambda>h. h) (at_most 1) (fetch_profile_key E b t)"
  unfolding fetch_profile_key_def by (rule adds_weaken, (rule adds_rules)+) simp

lemma authenticate_adds [adds_rules]:
  "adds (\<lambda>h. h) (at_most 3) (authenticate E base_url email pw cid cs dev)"
  unfolding authenticate_def prelogin_def log_in_send
  by (rule adds_weaken, (rule adds_rules)+) simp

lemma refresh_token_adds [adds_rules]: "adds (\<lambda>h. h) (at_most 1) (refresh_token E base_url rt)"
  unfolding refresh_token_def Let_def by (rule adds_weaken, (rule adds_rules)+) simp

lemma auth_quiet [quiet_rules]:
  "adds (\<lambda>h. h) quiet (authenticate E base_url email pw cid cs dev)"
  "adds (\<lambda>h. h) quiet (refresh_token E base_url rt)"
  unfolding authenticate_def prelogin_def log_in_send fetch_profile_key_def refresh_token_def Let_def
  by (intro quiet_rules)+

lemma refresh_token_Ok:
  "refresh_token E base_url rt h = (Ok (at, new_rt, ex), h') \<longleftrightarrow>
     rt \<noteq> [] \<and> h' = h @ [HttpSent (token_request base_url (refresh_params rt))] \<and>
     (\<exists>resp tok. http_answer E h' = Inr resp \<and> is_success resp \<and> json_body (de_token E) resp = Ok tok
        \<and> at = tok_access_token tok \<and> ex = tok_expires_in tok
        \<and> new_rt = (if tok_refresh_token tok = [] then None else Some (tok_refresh_token tok)))"
  by (auto simp: refresh_token_def action_Ok send_json_Ok Let_def split: if_splits)

lemma prelogin_sent: "snd (prelogin E base_url email h) = h @ [HttpSent (prelogin_request base_url email)]"
  by (simp add: prelogin_def send_json_sent)

lemma log_in_sent:
  "snd (log_in E base_url email pw cid cs dev mk h)
     = h @ [HttpSent (grant_request E base_url email pw cid cs dev mk)]"
  by (simp add: log_in_send send_json_sent)

lemma auth_steps_no_Panic [simp]:
  "fst (prelogin E base_url email h) \<noteq> Panic"
  "fst (log_in E base_url email pw cid cs dev mk h) \<noteq> Panic"
  by (simp_all add: prelogin_def log_in_send)

lemma fetch_profile_key_no_Panic [simp]: "fst (fetch_profile_key E base_url tok h) \<noteq> Panic"
proof (cases "send_json E AuthHttp AuthServer (de_profile_key E) (sync_request base_url tok) h")
  case (Pair r s)
  moreover have "r \<noteq> Panic"
    using Pair send_json_no_Panic [of E AuthHttp AuthServer "de_profile_key E" "sync_request base_url tok" h]
    by simp
  ultimately show ?thesis
    by (cases r) (simp_all add: fetch_profile_key_def outcome_simps areturn_def afail_def)
qed

lemma pair_of_parts: "fst p = r \<Longrightarrow> snd p = t \<Longrightarrow> p = (r, t)"
  by (cases p) simp

text \<open>Without a master key authentication ends after the prelogin; with one it goes on to the grant, and
  to the profile when the grant's answer has no key.\<close>

lemma authenticate_no_key:
  assumes "\<nexists>pre mk. fst (prelogin E base_url email h) = Ok pre \<and> derive_master_key E pw email pre = Ok mk"
  shows "snd (authenticate E base_url email pw cid cs dev h) = h @ [HttpSent (prelogin_request base_url email)]"
proof -
  obtain q where q: "prelogin E base_url email h = (q, h @ [HttpSent (prelogin_request base_url email)])"
    using prelogin_sent [of E base_url email h] by (metis prod.collapse)
  then show ?thesis
    using assms by (cases q)
      (auto simp: authenticate_def outcome_simps alift_def abind_def [of "alift _"] amatch_def afail_def
        split: outcome.splits)
qed

lemma authenticate_grant:
  fixes cid cs dev
  assumes "fst (prelogin E base_url email h) = Ok pre" and "derive_master_key E pw email pre = Ok mk"
  defines "r1 \<equiv> HttpSent (prelogin_request base_url email)"
    and "r2 \<equiv> HttpSent (grant_request E base_url email pw cid cs dev mk)"
  shows "snd (authenticate E base_url email pw cid cs dev h) =
    (case fst (log_in E base_url email pw cid cs dev mk (h @ [r1])) of
       Ok t \<Rightarrow> if tok_key t = [] then h @ [r1, r2, HttpSent (sync_request base_url (tok_access_token t))] else h @ [r1, r2]
     | _ \<Rightarrow> h @ [r1, r2])"
proof -
  have pre: "prelogin E base_url email h = (Ok pre, h @ [r1])"
    using assms(1) prelogin_sent [of E base_url email h] by (intro pair_of_parts) (simp_all add: r1_def)
  obtain q where q: "log_in E base_url email pw cid cs dev mk (h @ [r1]) = (q, h @ [r1, r2])"
    using log_in_sent [of E base_url email pw cid cs dev mk "h @ [r1]"]
    by (metis prod.collapse r2_def append.assoc append_Cons append_Nil)
  have tail: "snd (abind (alift r) (\<lambda>k. areturn (f k)) s) = s"
    for r :: "(auth_error, symmetric_key) outcome" and f :: "symmetric_key \<Rightarrow> 'b" and s :: history
    by (auto simp: action_defs split: outcome.splits)
  show ?thesis
  proof (cases q)
    case (Ok t)
    obtain q3 where "fetch_profile_key E base_url (tok_access_token t) (h @ [r1, r2]) =
        (q3, h @ [r1, r2, HttpSent (sync_request base_url (tok_access_token t))])"
      using fetch_profile_key_sent [of E base_url "tok_access_token t" "h @ [r1, r2]"]
      by (metis prod.collapse append.assoc append_Cons append_Nil)
    then show ?thesis
      using pre q Ok assms(2)
      by (cases q3) (simp_all add: authenticate_def outcome_simps alift_def areturn_def tail)
  qed (use pre q assms(2) in \<open>simp_all add: authenticate_def outcome_simps alift_def\<close>)
qed

section \<open>A concrete world\<close>

text \<open>A server with given status codes and fixed bodies, a clock that ticks one second per event and
  the concrete primitives; the account key is wrapped for the master key of \<open>''pw''\<close>.\<close>

definition toy_pre :: prelogin_response where
  "toy_pre = \<lparr>kdf = 0, kdf_iterations = 1, kdf_memory = None, kdf_parallelism = None\<rparr>"

definition toy_master_key :: bytes where
  "toy_master_key = take 32 (as_bytes ''pw'' @ as_bytes ''u@x'' @ replicate 32 0)"

definition toy_stretched :: symmetric_key where
  "toy_stretched = \<lparr>enc_key = take 32 (as_bytes ''enc'' @ toy_master_key @ replicate 32 0),
     mac_key = take 32 (as_bytes ''mac'' @ toy_master_key @ replicate 32 0)\<rparr>"

definition toy_token :: token_response where
  "toy_token = \<lparr>tok_access_token = ''at'', tok_expires_in = 3600, tok_refresh_token = ''rt'',
     tok_key = make_type2_cipherstring toy_prims (enc_key toy_stretched) (mac_key toy_stretched)
       (replicate 16 0) (enc_key demo_key @ mac_key demo_key)\<rparr>"

definition ok_response :: http_response where
  "ok_response = \<lparr>http_status = 200, http_body_read = Inr []\<rparr>"

definition server_env :: "(history \<Rightarrow> string + http_response) \<Rightarrow> token_response \<Rightarrow> bytes env" where
  "server_env answer tok =
     \<lparr>http_answer = answer,
      clock_at = (\<lambda>h. int (length h) * 1000000000), utc_at = (\<lambda>h. ''2026-09-03T22:13:00+00:00''),
      secret_exists = (\<lambda>h. Inr False), kube_write = (\<lambda>h. None),
      lease_answer = (\<lambda>h. Inr True), lease_release = (\<lambda>h. None), stop_at = (\<lambda>h. False), text_of = (\<lambda>b. map char_of_byte b),
      de_prelogin = (\<lambda>b. Inr toy_pre), de_token = (\<lambda>b. Inr tok),
      de_profile_key = (\<lambda>b. Inr ''k''), de_sync = (\<lambda>b. Inr demo_sync),
      prims_of = toy_prims, ucd_of = toy_ucd, hash_iter = (\<lambda>m. m),
      debug_str = (\<lambda>s. [CHR 34] @ s @ [CHR 34]), overflow_checks = False\<rparr>"

definition toy_env :: "bytes env" where
  "toy_env = server_env (\<lambda>h. Inr ok_response) toy_token"

lemma server_env_sel [simp]:
  "http_answer (server_env answer tok) = answer"
  "de_prelogin (server_env answer tok) = (\<lambda>b. Inr toy_pre)"
  "de_token (server_env answer tok) = (\<lambda>b. Inr tok)"
  "de_sync (server_env answer tok) = (\<lambda>b. Inr demo_sync)"
  "de_profile_key (server_env answer tok) = (\<lambda>b. Inr ''k'')"
  "prims_of (server_env answer tok) = toy_prims" "ucd_of (server_env answer tok) = toy_ucd"
  "clock_at (server_env answer tok) h = int (length h) * 1000000000"
  "hash_iter (server_env answer tok) = (\<lambda>m. m)"
  "utc_at (server_env answer tok) h = ''2026-09-03T22:13:00+00:00''"
  "secret_exists (server_env answer tok) h = Inr False"
  "kube_write (server_env answer tok) h = None" "overflow_checks (server_env answer tok) = False"
  "lease_answer (server_env answer tok) h = Inr True" "stop_at (server_env answer tok) h = False"
  by (simp_all add: server_env_def)

lemma ok_response_simps [simp]: "is_success ok_response" "json_body de ok_response = of_sum (de [])"
  "http_status ok_response = 200"
  by (simp_all add: ok_response_def is_success_def json_body_def)

lemma toy_send_json:
  "answer (h @ [HttpSent req]) = Inr ok_response \<Longrightarrow>
     send_json (server_env answer tok) he se (\<lambda>b. Inr a) req h = (Ok a, h @ [HttpSent req])"
  by (simp add: send_json_Ok)

lemma toy_derive: "derive_master_key (server_env answer tok) ''pw'' ''u@x'' toy_pre = Ok toy_master_key"
proof -
  have "trim ''u@x'' = ''u@x''" by (simp add: str_eval)
  moreover have "to_lowercase toy_ucd ''u@x'' = ''u@x''"
    by (simp add: to_lowercase_ascii is_ascii_def ascii_lower_def)
  ultimately show ?thesis
    by (simp add: derive_master_key_def make_master_key_def toy_pre_def KDF_PBKDF2_def toy_master_key_def
        toy_prims_def)
qed

lemma toy_stretch: "stretch_key toy_prims toy_master_key = Ok toy_stretched"
  by (simp add: stretch_key_def toy_prims_def toy_stretched_def toy_master_key_def as_bytes_def)

lemma toy_stretched_lengths [simp]:
  "length (enc_key toy_stretched) = 32" "mac_key toy_stretched \<noteq> []"
  by (simp_all add: toy_stretched_def toy_master_key_def as_bytes_def)

lemma toy_account_key:
  "decrypt_symmetric_key toy_prims (tok_key toy_token) toy_master_key = Ok demo_key"
  using decrypt_symmetric_key_type2 [OF toy_b64_laws toy_aes_laws toy_stretch toy_stretched_lengths,
      of "replicate 16 0" "enc_key demo_key @ mac_key demo_key"]
  by (simp add: toy_token_def split_key_def demo_key_def)

lemma toy_authenticate:
  assumes "answer (h @ [HttpSent (prelogin_request b ''u@x'')]) = Inr ok_response"
    and "\<And>r. answer (h @ [HttpSent (prelogin_request b ''u@x''), HttpSent r]) = Inr ok_response"
  shows "\<exists>r. authenticate (server_env answer toy_token) b ''u@x'' ''pw'' None None dev h
    = (Ok (''at'', ''rt'', 3600, demo_key), h @ [HttpSent (prelogin_request b ''u@x''), HttpSent r])"
proof -
  have "tok_key toy_token \<noteq> []" by (simp add: toy_token_def)
  moreover have "tok_access_token toy_token = ''at''" "tok_refresh_token toy_token = ''rt''"
    "tok_expires_in toy_token = 3600" by (simp_all add: toy_token_def)
  ultimately show ?thesis
    using assms
    by (simp add: authenticate_def prelogin_def log_in_send toy_send_json outcome_simps toy_derive
        alift_def areturn_def toy_account_key)
qed

section \<open>Properties\<close>

text \<open>C19. Authentication sends at most three requests and always in this order: the prelogin
  request; then, once a master key was derived from the prelogin answer, one token request, the
  API-key grant exactly when both the client id and the secret are configured and otherwise the
  password grant carrying the hash and never the password; then, only when the token answer has
  no key, one \<open>/api/sync\<close> request with the new access token.\<close>

theorem authenticate_requests:
  "\<exists>new. snd (authenticate E base_url email pw cid cs dev h) = h @ new \<and>
     (let r1 = HttpSent (prelogin_request base_url email);
          r2 = (\<lambda>mk. HttpSent (grant_request E base_url email pw cid cs dev mk))
      in new = [r1] \<or>
         (\<exists>pre mk. fst (prelogin E base_url email h) = Ok pre \<and> derive_master_key E pw email pre = Ok mk \<and>
            (new = [r1, r2 mk] \<or>
             (\<exists>t. fst (log_in E base_url email pw cid cs dev mk (h @ [r1])) = Ok t \<and> tok_key t = [] \<and>
                new = [r1, r2 mk, HttpSent (sync_request base_url (tok_access_token t))]))))"
proof (cases "\<exists>pre mk. fst (prelogin E base_url email h) = Ok pre \<and> derive_master_key E pw email pre = Ok mk")
  case False
  then show ?thesis using authenticate_no_key [of E base_url email h pw cid cs dev] by (simp add: Let_def)
next
  case True
  then obtain pre mk where pre: "fst (prelogin E base_url email h) = Ok pre" and mk: "derive_master_key E pw email pre = Ok mk"
    by blast
  let ?r1 = "HttpSent (prelogin_request base_url email)"
  show ?thesis
  proof (cases "\<exists>t. fst (log_in E base_url email pw cid cs dev mk (h @ [?r1])) = Ok t \<and> tok_key t = []")
    case True
    then show ?thesis using authenticate_grant [OF pre mk, of cid cs dev] pre mk by (auto simp: Let_def)
  next
    case False
    then show ?thesis using authenticate_grant [OF pre mk, of cid cs dev] pre mk by (auto simp: Let_def split: outcome.splits)
  qed
qed

text \<open>C20. Authentication recovers the account key: when the server's answers carry the key that was
  wrapped under the stretched master key, in the token answer or in the profile, the session key
  is that key.\<close>

theorem authenticate_round_trip:
  assumes laws: "b64_laws (prims_of E)" "aes_laws (prims_of E)"
    and pre: "fst (prelogin E base_url email h) = Ok pre"
    and mk: "derive_master_key E pw email pre = Ok mk"
    and st: "stretch_key (prims_of E) mk = Ok st" "length (enc_key st) = 32" "mac_key st \<noteq> []"
    and tok: "fst (log_in E base_url email pw cid cs dev mk (snd (prelogin E base_url email h))) = Ok t"
    and key: "(if tok_key t = []
        then fst (fetch_profile_key E base_url (tok_access_token t)
               (snd (prelogin E base_url email h)
                  @ [HttpSent (grant_request E base_url email pw cid cs dev mk)]))
        else Ok (tok_key t))
      = Ok (make_type2_cipherstring (prims_of E) (enc_key st) (mac_key st) v (enc_key k @ mac_key k))"
    and len: "length v = 16" "length (enc_key k) = 32" "length (mac_key k) = 32"
  shows "fst (authenticate E base_url email pw cid cs dev h)
    = Ok (tok_access_token t, tok_refresh_token t, tok_expires_in t, k)"
proof -
  let ?ek = "make_type2_cipherstring (prims_of E) (enc_key st) (mac_key st) v (enc_key k @ mac_key k)"
  let ?h1 = "snd (prelogin E base_url email h)"
  let ?h2 = "?h1 @ [HttpSent (grant_request E base_url email pw cid cs dev mk)]"
  have 1: "prelogin E base_url email h = (Ok pre, ?h1)" using pre by (intro pair_of_parts) simp_all
  have 2: "log_in E base_url email pw cid cs dev mk ?h1 = (Ok t, ?h2)"
    using tok by (intro pair_of_parts) (simp_all add: log_in_sent)
  obtain h3 where 3: "(if tok_key t = [] then fetch_profile_key E base_url (tok_access_token t)
      else areturn (tok_key t)) ?h2 = (Ok ?ek, h3)"
    using key by (cases "tok_key t = []") (auto simp: areturn_def intro: pair_of_parts)
  have 4: "decrypt_symmetric_key (prims_of E) ?ek mk = Ok k"
    using decrypt_symmetric_key_type2 [OF laws st len(1), of "enc_key k @ mac_key k"] len
    by (simp add: split_key_def)
  show ?thesis
    unfolding authenticate_def
    using 1 2 3 4 mk by (simp add: outcome_simps alift_def areturn_def)
qed

theorem authenticate_round_trip_witness:
  "fst (authenticate toy_env ''https://v'' ''u@x'' ''pw'' None None ''dev'' [])
     = Ok (''at'', ''rt'', 3600, demo_key)"
proof -
  have "fst (authenticate toy_env ''https://v'' ''u@x'' ''pw'' None None ''dev'' []) =
      Ok (tok_access_token toy_token, tok_refresh_token toy_token, tok_expires_in toy_token, demo_key)"
    unfolding toy_env_def
  proof (rule authenticate_round_trip [where st = toy_stretched and mk = toy_master_key
        and v = "replicate 16 0" and pre = toy_pre])
    show "fst (prelogin (server_env (\<lambda>h. Inr ok_response) toy_token) ''https://v'' ''u@x'' []) = Ok toy_pre"
      by (simp add: prelogin_def toy_send_json)
  next
    show "fst (log_in (server_env (\<lambda>h. Inr ok_response) toy_token) ''https://v'' ''u@x'' ''pw'' None None
        ''dev'' toy_master_key
        (snd (prelogin (server_env (\<lambda>h. Inr ok_response) toy_token) ''https://v'' ''u@x'' []))) = Ok toy_token"
      by (simp add: log_in_send toy_send_json)
  qed (simp_all add: toy_derive toy_stretch toy_token_def demo_key_def)
  then show ?thesis by (simp add: toy_token_def)
qed

end
