(* ===== verification/Client.thy ===== *)
theory Client
  imports Auth Lookup
begin

text \<open>
  \<open>src/vault/mod.rs\<close> and \<open>fetch_sync\<close>: the vault client. Its state is the session (tokens, key,
  decrypted snapshot, time of the last refresh) beside the history of what was sent; its
  configuration never changes. The operations run to completion here; their interleaving under
  the refresh lock is the subject of another theory.
\<close>

section \<open>State and errors\<close>

datatype sync_error =
    SyncHttp string
  | SyncServer nat string
  | SyncCrypto crypto_error
  | SyncNotFound string
  | Unauthorized

datatype vault_error =
    VAuth auth_error
  | VSync sync_error
  | VLookup lookup_error
  | NotInitialized

fun show_sync_error :: "(string \<Rightarrow> string) \<Rightarrow> sync_error \<Rightarrow> string" where
  "show_sync_error dbg (SyncHttp e) = ''HTTP error: '' @ e"
| "show_sync_error dbg (SyncServer status body) = ''server returned '' @ show_nat status @ '': '' @ body"
| "show_sync_error dbg (SyncCrypto e) = ''crypto error: '' @ show_crypto_error e"
| "show_sync_error dbg (SyncNotFound s) = ''secret '' @ dbg s @ '' not found in vault''"
| "show_sync_error dbg Unauthorized = ''unauthorized (401); caller should refresh and retry''"

fun show_vault_error :: "(string \<Rightarrow> string) \<Rightarrow> vault_error \<Rightarrow> string" where
  "show_vault_error dbg (VAuth e) = ''auth error: '' @ show_auth_error e"
| "show_vault_error dbg (VSync e) = ''sync error: '' @ show_sync_error dbg e"
| "show_vault_error dbg (VLookup e) = show_lookup_error dbg e"
| "show_vault_error dbg NotInitialized = ''vault not yet initialized''"

text \<open>An error as \<open>std::error::Error\<close> presents it: its text and its source.\<close>

datatype error_node = ErrorNode string "error_node option"

fun push_sources :: "string \<Rightarrow> error_node option \<Rightarrow> string" where
  "push_sources out None = out"
| "push_sources out (Some (ErrorNode s src)) = push_sources (out @ '' -> '' @ s) src"

fun error_chain :: "error_node \<Rightarrow> string" where
  "error_chain (ErrorNode e src) = push_sources e src"

record secret_request =
  req_name :: string
  req_vault :: "string option"

record session =
  access_token :: string
  sess_refresh_token :: string
  token_expires_at :: instant
  sym_key :: symmetric_key
  vault :: "vault_cache option"
  last_refresh_at :: instant

record client_config =
  cfg_base_url :: string
  cfg_email :: string
  cfg_password :: string
  cfg_client_id :: "string option"
  cfg_client_secret :: "string option"
  cfg_device_id :: string
  min_refresh_interval :: nat

record world =
  trace :: history
  session :: session

abbreviation net :: "(history, 'e, 'a) action \<Rightarrow> (world, 'e, 'a) action" where
  "net \<equiv> azoom trace trace_update"

abbreviation write_session :: "(session \<Rightarrow> session) \<Rightarrow> (world, 'e, unit) action" where
  "write_session f \<equiv> amodify (session_update f)"

section \<open>Operations\<close>

definition fetch_sync :: "'rsa env \<Rightarrow> string \<Rightarrow> string \<Rightarrow> (history, sync_error, sync_response) action" where
  "fetch_sync E base_url tok =
     atry SyncHttp (http_send E (sync_request base_url tok)) (\<lambda>resp.
       if http_status resp = 401 then afail Unauthorized
       else if \<not> is_success resp
       then afail (SyncServer (http_status resp) (text_or_default E resp))
       else alift (map_err SyncHttp (json_body (de_sync E) resp)))"

text \<open>\<open>Instant::now() + Duration::from_secs(expires_in)\<close>.\<close>

definition expiry_instant :: "'rsa env \<Rightarrow> u64 \<Rightarrow> (world, 'e, instant) action" where
  "expiry_instant E expires_in =
     abind (net (read_clock E)) (\<lambda>now. alift (instant_add now (nanos (unat expires_in))))"

definition re_authenticate :: "'rsa env \<Rightarrow> client_config \<Rightarrow> (world, vault_error, unit) action" where
  "re_authenticate E c =
     atry VAuth
       (net (authenticate E (cfg_base_url c) (cfg_email c) (cfg_password c) (cfg_client_id c)
               (cfg_client_secret c) (cfg_device_id c))) (\<lambda>(tok, rt, expires_in, key).
     abind (write_session (\<lambda>s. s\<lparr>access_token := tok, sess_refresh_token := rt\<rparr>)) (\<lambda>_.
     abind (expiry_instant E expires_in) (\<lambda>t.
       write_session (\<lambda>s. s\<lparr>token_expires_at := t, sym_key := key\<rparr>))))"

definition do_refresh_or_reauth :: "'rsa env \<Rightarrow> client_config \<Rightarrow> (world, vault_error, unit) action" where
  "do_refresh_or_reauth E c =
     abind (aget (\<lambda>w. sess_refresh_token (session w))) (\<lambda>current_rt.
       amatch (net (refresh_token E (cfg_base_url c) current_rt))
         (\<lambda>(new_at, new_rt, expires_in).
            abind (write_session (\<lambda>s. s\<lparr>access_token := new_at,
                sess_refresh_token := (case new_rt of Some rt \<Rightarrow> rt | None \<Rightarrow> sess_refresh_token s)\<rparr>)) (\<lambda>_.
            abind (expiry_instant E expires_in) (\<lambda>t.
              write_session (\<lambda>s. s\<lparr>token_expires_at := t\<rparr>))))
         (\<lambda>e. re_authenticate E c))"

definition ensure_valid_token :: "'rsa env \<Rightarrow> client_config \<Rightarrow> (world, vault_error, unit) action" where
  "ensure_valid_token E c =
     abind (aget (\<lambda>w. token_expires_at (session w))) (\<lambda>expires_at.
     abind (net (read_clock E)) (\<lambda>now.
     abind (alift (instant_add now (nanos 60))) (\<lambda>t.
       if expires_at \<le> t then do_refresh_or_reauth E c else areturn ())))"

text \<open>Fetch the account with the session's token; on a 401 renew the token and try once more.\<close>

definition fetch_sync_renewing ::
    "'rsa env \<Rightarrow> client_config \<Rightarrow> string \<Rightarrow> (world, vault_error, sync_response) action" where
  "fetch_sync_renewing E c tok =
     amatch (net (fetch_sync E (cfg_base_url c) tok))
       areturn
       (\<lambda>e. if e = Unauthorized
            then abind (do_refresh_or_reauth E c) (\<lambda>_.
                 abind (aget (\<lambda>w. access_token (session w))) (\<lambda>tok'.
                   atry VSync (net (fetch_sync E (cfg_base_url c) tok')) areturn))
            else afail (VSync e))"

definition store_snapshot :: "'rsa env \<Rightarrow> vault_cache \<Rightarrow> (world, vault_error, unit) action" where
  "store_snapshot E cache =
     abind (write_session (\<lambda>s. s\<lparr>vault := Some cache\<rparr>)) (\<lambda>_.
     abind (net (read_clock E)) (\<lambda>now.
       write_session (\<lambda>s. s\<lparr>last_refresh_at := now\<rparr>)))"

definition refresh_vault_cache :: "'rsa env \<Rightarrow> client_config \<Rightarrow> (world, vault_error, unit) action" where
  "refresh_vault_cache E c =
     abind (ensure_valid_token E c) (\<lambda>_.
     abind (aget (\<lambda>w. access_token (session w))) (\<lambda>tok.
     abind (aget (\<lambda>w. sym_key (session w))) (\<lambda>key.
     abind (fetch_sync_renewing E c tok) (\<lambda>sync_resp.
       store_snapshot E (fst (decrypt_vault (hash_iter E) (ucd_of E) (prims_of E) sync_resp key))))))"

definition lookup_secret :: "'rsa env \<Rightarrow> vault_cache \<Rightarrow> secret_request \<Rightarrow> (lookup_error, string) outcome" where
  "lookup_secret E cache req =
     obind (lookup_item (ucd_of E) cache (req_name req) (req_vault req)) (\<lambda>item. Ok (extract_secret item))"

definition try_fetch_secrets ::
    "'rsa env \<Rightarrow> session \<Rightarrow> secret_request list \<Rightarrow> (vault_error, string list) outcome" where
  "try_fetch_secrets E s requests =
     obind (ok_or NotInitialized (vault s)) (\<lambda>cache.
       map_err VLookup (collect (lookup_secret E cache) requests))"

definition refresh_if_due :: "'rsa env \<Rightarrow> client_config \<Rightarrow> (world, vault_error, bool) action" where
  "refresh_if_due E c =
     abind (aget (\<lambda>w. last_refresh_at (session w))) (\<lambda>last.
     abind (net (read_clock E)) (\<lambda>now.
       if saturating_duration_since now last < min_refresh_interval c
       then areturn False
       else amatch (refresh_vault_cache E c) (\<lambda>_. areturn True) (\<lambda>e. areturn False)))"

definition stale_miss :: "vault_error \<Rightarrow> bool" where
  "stale_miss e = (case e of VLookup l \<Rightarrow> is_stale_miss l | _ \<Rightarrow> False)"

text \<open>The second half of \<open>fetch_secrets\<close>, after a staleness-class miss with the error \<open>e\<close>.\<close>

definition after_miss ::
    "'rsa env \<Rightarrow> client_config \<Rightarrow> secret_request list \<Rightarrow> vault_error \<Rightarrow> (world, vault_error, string list) action" where
  "after_miss E c requests e =
     abind (refresh_if_due E c) (\<lambda>refreshed.
       if refreshed then (\<lambda>w'. (try_fetch_secrets E (session w') requests, w'))
       else afail e)"

definition fetch_secrets ::
    "'rsa env \<Rightarrow> client_config \<Rightarrow> secret_request list \<Rightarrow> (world, vault_error, string list) action" where
  "fetch_secrets E c requests w =
     (case try_fetch_secrets E (session w) requests of
        Err e \<Rightarrow>
          if stale_miss e then after_miss E c requests e w else (Err e, w)
      | other \<Rightarrow> (other, w))"

text \<open>\<open>VaultClient::new\<close>: authenticate, build the session, run the first sync on it. \<open>dev\<close> is the
  random device id.\<close>

definition run_session :: "session \<Rightarrow> (world, 'e, unit) action \<Rightarrow> (history, 'e, session) action" where
  "run_session s m h =
     (case m \<lparr>trace = h, session = s\<rparr> of
        (Ok _, w) \<Rightarrow> (Ok (session w), trace w)
      | (Err e, w) \<Rightarrow> (Err e, trace w)
      | (Panic, w) \<Rightarrow> (Panic, trace w))"

definition new_config :: "client_config \<Rightarrow> string \<Rightarrow> client_config" where
  "new_config c dev =
     c\<lparr>cfg_base_url := trim_end_matches CHR ''/'' (cfg_base_url c), cfg_device_id := dev\<rparr>"

definition new_client ::
    "'rsa env \<Rightarrow> client_config \<Rightarrow> string \<Rightarrow> (history, vault_error, client_config \<times> session) action" where
  "new_client E c dev =
     (let c' = new_config c dev in
      atry VAuth
        (authenticate E (cfg_base_url c') (cfg_email c') (cfg_password c') (cfg_client_id c')
           (cfg_client_secret c') (cfg_device_id c')) (\<lambda>(tok, rt, expires_in, key).
      abind (read_clock E) (\<lambda>now.
      abind (alift (instant_add now (nanos (unat expires_in)))) (\<lambda>t.
      abind (read_clock E) (\<lambda>now2.
      abind (run_session
               \<lparr>access_token = tok, sess_refresh_token = rt, token_expires_at = t, sym_key = key,
                vault = None, last_refresh_at = now2\<rparr>
               (refresh_vault_cache E c')) (\<lambda>s.
        areturn (c', s)))))))"

definition max_retries :: nat where
  "max_retries = 3"

text \<open>The \<open>for attempt in 1..=max_retries\<close> loop; \<open>dev\<close> gives the device id of each attempt.\<close>

fun init_attempts ::
    "'rsa env \<Rightarrow> client_config \<Rightarrow> (nat \<Rightarrow> string) \<Rightarrow> nat list
       \<Rightarrow> (history, vault_error, client_config \<times> session) action" where
  "init_attempts E c dev [] = alift Panic"
| "init_attempts E c dev (attempt # rest) =
     abind (if 1 < attempt then sleep_for (nanos (attempt * attempt * 5)) else areturn ()) (\<lambda>_.
       amatch (new_client E c (dev attempt)) areturn
         (\<lambda>e. if attempt = max_retries then afail e else init_attempts E c dev rest))"

definition initialize_vault_client ::
    "'rsa env \<Rightarrow> client_config \<Rightarrow> (nat \<Rightarrow> string) \<Rightarrow> (history, vault_error, client_config \<times> session) action" where
  "initialize_vault_client E c dev = init_attempts E c dev [1..<max_retries + 1]"

text \<open>The loop of \<open>error_chain\<close> joins the texts of the error and of all its sources.\<close>

fun texts_of :: "error_node \<Rightarrow> string list" where
  "texts_of (ErrorNode e src) = e # (case src of None \<Rightarrow> [] | Some n \<Rightarrow> texts_of n)"

lemma push_sources_eq:
  "push_sources out src = out @ concat (map (\<lambda>t. '' -> '' @ t) (case src of None \<Rightarrow> [] | Some n \<Rightarrow> texts_of n))"
  by (induction out src rule: push_sources.induct) (auto split: option.split)

lemma error_chain_eq: "error_chain e = hd (texts_of e) @ concat (map (\<lambda>t. '' -> '' @ t) (tl (texts_of e)))"
  by (cases e) (simp add: push_sources_eq)

section \<open>What the operations add and leave alone\<close>

lemma net_trace: "trace (snd (net m w)) = snd (m (trace w))"
  by (simp add: azoom_def split: prod.split)

lemma adds_net [adds_rules]: "adds (\<lambda>h. h) R m \<Longrightarrow> adds trace R (net m)"
  by (erule adds_zoom) simp

lemma adds_write_session [adds_rules]: "adds trace (at_most 0) (write_session f)"
  by (simp add: adds_def amodify_def at_most_def)

lemma fetch_sync_adds [adds_rules]: "adds (\<lambda>h. h) (at_most 1) (fetch_sync E b tok)"
  unfolding fetch_sync_def by (rule adds_weaken, (rule adds_rules)+) simp

lemma expiry_instant_adds [adds_rules]: "adds trace (at_most 0) (expiry_instant E x)"
  unfolding expiry_instant_def by (rule adds_weaken, (rule adds_rules)+) simp

lemma re_authenticate_adds [adds_rules]: "adds trace (at_most 3) (re_authenticate E c)"
  unfolding re_authenticate_def by (rule adds_weaken, (rule adds_rules)+) simp

lemma do_refresh_or_reauth_adds [adds_rules]: "adds trace (at_most 4) (do_refresh_or_reauth E c)"
  unfolding do_refresh_or_reauth_def by (rule adds_weaken, (rule adds_rules)+) simp

lemma ensure_valid_token_adds [adds_rules]: "adds trace (at_most 4) (ensure_valid_token E c)"
  unfolding ensure_valid_token_def by (rule adds_weaken, (rule adds_rules)+) simp

lemma refresh_vault_cache_adds [adds_rules]: "adds trace (at_most 10) (refresh_vault_cache E c)"
  unfolding refresh_vault_cache_def fetch_sync_renewing_def store_snapshot_def
  by (rule adds_weaken, (rule adds_rules)+) simp

lemma refresh_if_due_adds [adds_rules]: "adds trace (at_most 10) (refresh_if_due E c)"
  unfolding refresh_if_due_def by (rule adds_weaken, (rule adds_rules)+) simp

lemma quiet_net [quiet_rules]: "adds (\<lambda>h. h) quiet m \<Longrightarrow> adds trace quiet (net m)"
  by (erule adds_zoom) simp

lemma do_refresh_or_reauth_quiet [quiet_rules]: "adds trace quiet (do_refresh_or_reauth E c)"
  unfolding do_refresh_or_reauth_def re_authenticate_def expiry_instant_def
  by (intro quiet_rules) simp_all

lemma refresh_if_due_quiet [quiet_rules]: "adds trace quiet (refresh_if_due E c)"
  unfolding refresh_if_due_def refresh_vault_cache_def ensure_valid_token_def fetch_sync_renewing_def
    fetch_sync_def store_snapshot_def
  by (intro quiet_rules) simp_all

text \<open>The snapshot and its age are written by \<open>store_snapshot\<close> alone.\<close>

definition snapshot :: "world \<Rightarrow> vault_cache option \<times> instant" where
  "snapshot w = (vault (session w), last_refresh_at (session w))"

lemma expiry_instant_frames [frame_rules]: "frames snapshot (expiry_instant E x)"
  unfolding expiry_instant_def by (intro frame_rules) (simp_all add: snapshot_def)

lemma re_authenticate_frames [frame_rules]: "frames snapshot (re_authenticate E c)"
  unfolding re_authenticate_def by (intro frame_rules) (simp_all add: snapshot_def)

lemma do_refresh_or_reauth_frames [frame_rules]: "frames snapshot (do_refresh_or_reauth E c)"
  unfolding do_refresh_or_reauth_def by (intro frame_rules) (simp_all add: snapshot_def)

lemma ensure_valid_token_frames [frame_rules]: "frames snapshot (ensure_valid_token E c)"
  unfolding ensure_valid_token_def by (intro frame_rules) (simp_all add: snapshot_def)

lemma fetch_sync_renewing_frames [frame_rules]: "frames snapshot (fetch_sync_renewing E c tok)"
  unfolding fetch_sync_renewing_def by (intro frame_rules) (simp_all add: snapshot_def)

section \<open>What a refresh does\<close>

lemma fetch_sync_Ok:
  "fetch_sync E b tok h = (Ok sync, h') \<longleftrightarrow>
     h' = h @ [HttpSent (sync_request b tok)] \<and>
     (\<exists>resp. http_answer E h' = Inr resp \<and> is_success resp \<and> json_body (de_sync E) resp = Ok sync)"
  by (auto simp: fetch_sync_def http_send_def action_Ok Let_def is_success_def split: if_splits)

lemma azoom_Ok:
  "net m w = (Ok a, w') \<longleftrightarrow> (\<exists>h. m (trace w) = (Ok a, h) \<and> w' = w\<lparr>trace := h\<rparr>)"
  by (auto simp: azoom_def split: prod.splits)

definition served_sync :: "'rsa env \<Rightarrow> client_config \<Rightarrow> string \<Rightarrow> history \<Rightarrow> sync_response \<Rightarrow> bool" where
  "served_sync E c tok h sync \<longleftrightarrow>
     suffix [HttpSent (sync_request (cfg_base_url c) tok)] h \<and>
     (case http_answer E h of Inl _ \<Rightarrow> False
      | Inr resp \<Rightarrow> is_success resp \<and> json_body (de_sync E) resp = Ok sync)"

lemma fetch_sync_served:
  "fetch_sync E (cfg_base_url c) tok h = (Ok sync, h') \<Longrightarrow> served_sync E c tok h' sync"
  by (auto simp: fetch_sync_Ok served_sync_def suffix_def)

lemma fetch_sync_renewing_served:
  assumes "fetch_sync_renewing E c tok w = (Ok sync, w')" and "tok = access_token (session w)"
  shows "served_sync E c (access_token (session w')) (trace w') sync"
  using assms
  by (auto simp: fetch_sync_renewing_def action_Ok azoom_Ok dest: fetch_sync_served split: if_splits)

lemma store_snapshot_eq:
  "store_snapshot E cache w = (Ok (), w\<lparr>trace := trace w @ [ClockRead],
     session := (session w)\<lparr>vault := Some cache, last_refresh_at := clock_at E (trace w @ [ClockRead])\<rparr>\<rparr>)"
  by (cases w) (simp add: store_snapshot_def action_defs read_clock_def Let_def)

text \<open>A refresh runs in two halves: the first renews the token and fetches the account and leaves
  the snapshot alone, the second stores the new snapshot and cannot fail.\<close>

definition fetch_account ::
    "'rsa env \<Rightarrow> client_config \<Rightarrow> (world, vault_error, sync_response \<times> symmetric_key) action" where
  "fetch_account E c =
     abind (ensure_valid_token E c) (\<lambda>_.
     abind (aget (\<lambda>w. access_token (session w))) (\<lambda>tok.
     abind (aget (\<lambda>w. sym_key (session w))) (\<lambda>key.
     abind (fetch_sync_renewing E c tok) (\<lambda>sync_resp. areturn (sync_resp, key)))))"

lemma abind_assoc: "abind (abind m f) g = abind m (\<lambda>x. abind (f x) g)"
  by (rule ext) (simp add: abind_def amatch_def afail_def split: prod.split outcome.split)

lemma abind_areturn [simp]: "abind (areturn a) f = f a"
  by (rule ext) (simp add: action_defs)

lemma refresh_split:
  "refresh_vault_cache E c =
     abind (fetch_account E c)
       (\<lambda>(sync_resp, key).
          store_snapshot E (fst (decrypt_vault (hash_iter E) (ucd_of E) (prims_of E) sync_resp key)))"
  by (simp add: refresh_vault_cache_def fetch_account_def abind_assoc)

lemma fetch_account_frames: "frames snapshot (fetch_account E c)"
  unfolding fetch_account_def by (intro frame_rules)

lemma fetch_account_Ok:
  assumes "fetch_account E c w = (Ok (sync, key), w')"
  shows "served_sync E c (access_token (session w')) (trace w') sync
    \<and> key = sym_key (session (snd (ensure_valid_token E c w)))"
  using assms by (auto simp: fetch_account_def action_Ok dest: fetch_sync_renewing_served)

lemma refresh_outcome:
  assumes "refresh_vault_cache E c w = (r, w')"
  shows "(r = Ok () \<and>
      (\<exists>sync h. trace w' = h @ [ClockRead] \<and> served_sync E c (access_token (session w')) h sync
         \<and> snapshot w' = (Some (fst (decrypt_vault (hash_iter E) (ucd_of E) (prims_of E) sync
              (sym_key (session (snd (ensure_valid_token E c w)))))), clock_at E (trace w'))))
    \<or> (\<exists>e. r = Err e \<or> r = Panic) \<and> snapshot w' = snapshot w"
proof -
  obtain q v where q: "fetch_account E c w = (q, v)" by (cases "fetch_account E c w")
  have v: "snapshot v = snapshot w" using framesD_eq [OF fetch_account_frames q] .
  show ?thesis
  proof (cases q)
    case (Ok p)
    then obtain sync key where p: "q = Ok (sync, key)" by (cases p) simp
    with q fetch_account_Ok [of E c w sync key v]
    have "served_sync E c (access_token (session v)) (trace v) sync"
      "key = sym_key (session (snd (ensure_valid_token E c w)))" by auto
    then show ?thesis
      using assms q p by (auto simp: refresh_split outcome_simps store_snapshot_eq snapshot_def)
  next
    case (Err e)
    then show ?thesis using assms q v by (auto simp: refresh_split outcome_simps)
  next
    case Panic
    then show ?thesis using assms q v by (auto simp: refresh_split outcome_simps)
  qed
qed

section \<open>Refreshing on a miss\<close>

text \<open>
  The contract of \<open>fetch_secrets\<close>, independent of what is looked up: attempt on the present
  state; on a staleness-class error refresh at most once and attempt again on the state the
  refresh left; anything else is returned as it is. \<open>ready\<close> is an invariant of the state.
\<close>

locale refresh_on_miss =
  fixes attempt :: "'s \<Rightarrow> ('e, 'a) outcome"
    and refresh :: "('s, 'e, bool) action"
    and stale :: "'e \<Rightarrow> bool"
    and fetch :: "('s, 'e, 'a) action"
    and ready :: "'s \<Rightarrow> bool"
  assumes fetch_stale: "attempt s = Err e \<Longrightarrow> stale e \<Longrightarrow>
      fetch s = abind refresh (\<lambda>b. if b then (\<lambda>s'. (attempt s', s')) else afail e) s"
    and fetch_other: "(\<And>e. attempt s = Err e \<Longrightarrow> \<not> stale e) \<Longrightarrow> fetch s = (attempt s, s)"
    and refresh_no_Err: "fst (refresh s) \<noteq> Err e"
    and refresh_ready: "ready s \<Longrightarrow> ready (snd (refresh s))"
begin

lemma fetch_cases:
  obtains (direct) "fetch s = (attempt s, s)" "\<And>e. attempt s = Err e \<Longrightarrow> \<not> stale e"
  | (panic) e where "attempt s = Err e" "stale e" "fst (refresh s) = Panic" "fetch s = (Panic, snd (refresh s))"
  | (skipped) e where "attempt s = Err e" "stale e" "fst (refresh s) = Ok False"
      "fetch s = (Err e, snd (refresh s))"
  | (retried) e where "attempt s = Err e" "stale e" "fst (refresh s) = Ok True"
      "fetch s = (attempt (snd (refresh s)), snd (refresh s))"
proof (cases "\<exists>e. attempt s = Err e \<and> stale e")
  case False
  then show thesis using direct fetch_other by blast
next
  case True
  then obtain e where e: "attempt s = Err e" "stale e" by blast
  note f = fetch_stale [OF e]
  obtain r s' where r: "refresh s = (r, s')" by (cases "refresh s")
  show thesis
  proof (cases r)
    case (Ok b)
    then show thesis
      using e r f skipped retried by (cases b) (auto simp: outcome_simps afail_def)
  next
    case (Err e')
    then show thesis using refresh_no_Err [of s e'] r by simp
  next
    case Panic
    then show thesis using e r f panic by (simp add: outcome_simps)
  qed
qed

lemma fetch_Ok_attempt: "fetch s = (Ok a, s') \<Longrightarrow> attempt s' = Ok a"
  by (cases s rule: fetch_cases) auto

lemma fetch_Err_attempt: "fetch s = (Err e, s') \<Longrightarrow> attempt s = Err e \<or> attempt s' = Err e"
  by (cases s rule: fetch_cases) auto

lemma fetch_ready: "ready s \<Longrightarrow> ready (snd (fetch s))"
  using refresh_ready [of s] by (cases s rule: fetch_cases) auto

end

text \<open>A usable snapshot: present, with no empty entry in its organization index.\<close>

definition initialized :: "'rsa env \<Rightarrow> session \<Rightarrow> bool" where
  "initialized E s \<longleftrightarrow> (case vault s of None \<Rightarrow> False | Some cache \<Rightarrow> cache_wf (ucd_of E) cache)"

lemma refresh_initialized:
  "initialized E (session w) \<Longrightarrow> initialized E (session (snd (refresh_vault_cache E c w)))"
  using refresh_outcome [of E c w "fst (refresh_vault_cache E c w)" "snd (refresh_vault_cache E c w)"]
  by (auto simp: snapshot_def initialized_def decrypt_vault_wf)

lemma refresh_Ok_initialized:
  "refresh_vault_cache E c w = (Ok u, w') \<Longrightarrow> initialized E (session w')"
  using refresh_outcome [of E c w "Ok u" w'] by (auto simp: snapshot_def initialized_def decrypt_vault_wf)

lemma ensure_initialized:
  "initialized E (session w) \<Longrightarrow> initialized E (session (snd (ensure_valid_token E c w)))"
  using framesD [OF ensure_valid_token_frames, of E c w] by (simp add: snapshot_def initialized_def)

lemma refresh_if_due_eq:
  "refresh_if_due E c w =
     (if saturating_duration_since (clock_at E (trace w @ [ClockRead])) (last_refresh_at (session w))
         < min_refresh_interval c
      then (Ok False, w\<lparr>trace := trace w @ [ClockRead]\<rparr>)
      else amatch (refresh_vault_cache E c) (\<lambda>_. areturn True) (\<lambda>e. areturn False)
             (w\<lparr>trace := trace w @ [ClockRead]\<rparr>))"
  by (simp add: refresh_if_due_def abind_def aget_def azoom_def read_clock_def Let_def amatch_def
      areturn_def)

lemma refresh_if_due_no_Err: "fst (refresh_if_due E c w) \<noteq> Err e"
  by (auto simp: refresh_if_due_eq amatch_def areturn_def split: prod.splits outcome.splits)

lemma refresh_if_due_initialized:
  assumes "initialized E (session w)"
  shows "initialized E (session (snd (refresh_if_due E c w)))"
proof -
  have "initialized E (session (snd (refresh_vault_cache E c (w\<lparr>trace := trace w @ [ClockRead]\<rparr>))))"
    using assms by (intro refresh_initialized) simp
  then show ?thesis
    using assms by (auto simp: refresh_if_due_eq amatch_def areturn_def split: prod.splits outcome.splits)
qed

interpretation vault_client: refresh_on_miss
  "\<lambda>w. try_fetch_secrets E (session w) reqs" "refresh_if_due E c" stale_miss "fetch_secrets E c reqs"
  "\<lambda>w. initialized E (session w)"
  for E :: "'rsa env" and c reqs
proof
  show "fetch_secrets E c reqs s = abind (refresh_if_due E c)
      (\<lambda>b. if b then \<lambda>s'. (try_fetch_secrets E (session s') reqs, s') else afail e) s"
    if "try_fetch_secrets E (session s) reqs = Err e" "stale_miss e" for s e
    using that by (simp add: fetch_secrets_def after_miss_def)
  show "fetch_secrets E c reqs s = (try_fetch_secrets E (session s) reqs, s)"
    if "\<And>e. try_fetch_secrets E (session s) reqs = Err e \<Longrightarrow> \<not> stale_miss e" for s
    using that by (auto simp: fetch_secrets_def split: outcome.split)
qed (rule refresh_if_due_no_Err, rule refresh_if_due_initialized)

section \<open>Looking secrets up\<close>

lemma try_fetch_Ok:
  "try_fetch_secrets E s reqs = Ok vs \<longleftrightarrow>
     (\<exists>cache. vault s = Some cache \<and> list_all2 (\<lambda>req v. lookup_secret E cache req = Ok v) reqs vs)"
  by (auto simp: try_fetch_secrets_def outcome_iffs collect.run_Ok_iff)

lemma lookup_secret_Ok:
  "lookup_secret E cache req = Ok v \<longleftrightarrow>
     (\<exists>item. lookup_item (ucd_of E) cache (req_name req) (req_vault req) = Ok item \<and> v = extract_secret item)"
  by (auto simp: lookup_secret_def outcome_iffs)

lemma try_fetch_initialized:
  assumes "initialized E s"
  shows "try_fetch_secrets E s reqs \<noteq> Err NotInitialized \<and> try_fetch_secrets E s reqs \<noteq> Panic"
proof -
  obtain cache where cache: "vault s = Some cache" "cache_wf (ucd_of E) cache"
    using assms by (auto simp: initialized_def split: option.splits)
  have "lookup_secret E cache req \<noteq> Panic" for req
    using lookup_wf_no_Panic [OF cache(2)] by (auto simp: lookup_secret_def outcome_iffs)
  then have "collect (lookup_secret E cache) reqs \<noteq> Panic" by (intro collect.run_no_Panic)
  then show ?thesis using cache(1) by (auto simp: try_fetch_secrets_def outcome_iffs)
qed

lemma initialized_usable:
  assumes w: "initialized E (session w)"
  shows "vault (session w) \<noteq> None
    \<and> try_fetch_secrets E (session w) reqs \<noteq> Panic
    \<and> fst (fetch_secrets E c reqs w) \<noteq> Err NotInitialized"
proof -
  have w': "initialized E (session (snd (fetch_secrets E c reqs w)))"
    using w by (rule vault_client.fetch_ready)
  have "fst (fetch_secrets E c reqs w) \<noteq> Err NotInitialized"
  proof
    assume "fst (fetch_secrets E c reqs w) = Err NotInitialized"
    then have "fetch_secrets E c reqs w = (Err NotInitialized, snd (fetch_secrets E c reqs w))"
      by (metis prod.collapse)
    then show False
      using vault_client.fetch_Err_attempt try_fetch_initialized [OF w] try_fetch_initialized [OF w'] by metis
  qed
  then show ?thesis
    using w try_fetch_initialized [OF w] by (auto simp: initialized_def split: option.splits)
qed

lemma fetch_secrets_quiet: "adds trace quiet (fetch_secrets E c reqs)"
  unfolding adds_def
proof
  fix w
  show "\<exists>new. trace (snd (fetch_secrets E c reqs w)) = trace w @ new \<and> quiet new"
    using addsD [OF refresh_if_due_quiet, of E c w]
    by (cases w rule: vault_client.fetch_cases [where E = E and reqs = reqs and c = c]) auto
qed

section \<open>The life of a client\<close>

text \<open>Everything that happens to a client after \<open>VaultClient::new\<close>: lookups by reconciles, the two
  background tasks, and events of other parts of the process.\<close>

inductive client_run :: "'rsa env \<Rightarrow> client_config \<Rightarrow> world \<Rightarrow> bool" for E c where
  started: "new_client E c0 dev h = (Ok (c, s), h') \<Longrightarrow> client_run E c \<lparr>trace = h', session = s\<rparr>"
| fetched: "client_run E c w \<Longrightarrow> client_run E c (snd (fetch_secrets E c reqs w))"
| synced: "client_run E c w \<Longrightarrow> client_run E c (snd (refresh_vault_cache E c w))"
| token_checked: "client_run E c w \<Longrightarrow> client_run E c (snd (ensure_valid_token E c w))"
| elsewhere: "client_run E c w \<Longrightarrow> client_run E c (w\<lparr>trace := trace w @ es\<rparr>)"

lemma run_session_Ok:
  "run_session s m h = (Ok s', h') \<longleftrightarrow>
     m \<lparr>trace = h, session = s\<rparr> = (Ok (), \<lparr>trace = h', session = s'\<rparr>)"
  by (auto simp: run_session_def split: prod.splits outcome.splits)

lemma new_client_initialized:
  assumes "new_client E c0 dev h = (Ok (c, s), h')"
  shows "initialized E s"
  using assms
  by (auto simp: new_client_def Let_def action_Ok run_session_Ok dest!: refresh_Ok_initialized)

lemma client_run_initialized: "client_run E c w \<Longrightarrow> initialized E (session w)"
proof (induction rule: client_run.induct)
  case (started c0 dev h s h')
  then show ?case by (simp add: new_client_initialized)
next
  case (fetched w reqs)
  show ?case using fetched.IH by (rule vault_client.fetch_ready)
next
  case (synced w)
  show ?case using synced.IH by (rule refresh_initialized)
next
  case (token_checked w)
  show ?case using token_checked.IH by (rule ensure_initialized)
next
  case (elsewhere w es)
  then show ?case by simp
qed

section \<open>A concrete client\<close>

definition toy_config :: client_config where
  "toy_config = \<lparr>cfg_base_url = ''https://v/'', cfg_email = ''u@x'', cfg_password = ''pw'',
     cfg_client_id = None, cfg_client_secret = None, cfg_device_id = [], min_refresh_interval = nanos 30\<rparr>"

definition toy_cache :: vault_cache where
  "toy_cache = \<lparr>items = [demo_item ''c1'' None ''db'' ''personal'', demo_item ''c2'' (Some ''o1'') ''db'' ''shared''],
     orgs_by_name = index_orgs toy_ucd demo_orgs\<rparr>"

definition toy_session :: session where
  "toy_session = \<lparr>access_token = ''at'', sess_refresh_token = ''rt'', token_expires_at = int (nanos 4000),
     sym_key = demo_key, vault = Some toy_cache, last_refresh_at = 0\<rparr>"

definition toy_world :: world where
  "toy_world = \<lparr>trace = [], session = toy_session\<rparr>"

lemma toy_fetch_sync:
  "answer (h @ [HttpSent (sync_request b tok)]) = Inr ok_response \<Longrightarrow>
   fetch_sync (server_env answer t) b tok h = (Ok demo_sync, h @ [HttpSent (sync_request b tok)])"
  by (simp add: fetch_sync_Ok)

lemma toy_ensure:
  assumes "int (length (trace w) + 61) * 1000000000 < token_expires_at (session w)"
    and "length (trace w) < 1000"
  shows "ensure_valid_token (server_env answer t) c w = (Ok (), w\<lparr>trace := trace w @ [ClockRead]\<rparr>)"
  using assms
  by (simp add: ensure_valid_token_def action_Ok azoom_Ok read_clock_def instant_add_def nanos_def Let_def)

lemma toy_refresh:
  assumes "int (length (trace w) + 61) * 1000000000 < token_expires_at (session w)"
    and "length (trace w) < 1000" and "sym_key (session w) = demo_key"
  shows "\<exists>w'. refresh_vault_cache toy_env c w = (Ok (), w') \<and> vault (session w') = Some toy_cache"
proof -
  let ?w1 = "w\<lparr>trace := trace w @ [ClockRead]\<rparr>"
  have "fetch_sync_renewing toy_env c (access_token (session w)) ?w1 =
      (Ok demo_sync, ?w1\<lparr>trace := trace ?w1 @ [HttpSent (sync_request (cfg_base_url c) (access_token (session w)))]\<rparr>)"
    by (simp add: fetch_sync_renewing_def amatch_def azoom_def toy_fetch_sync areturn_def toy_env_def)
  moreover have "ensure_valid_token toy_env c w = (Ok (), ?w1)"
    unfolding toy_env_def using assms(1,2) by (rule toy_ensure)
  ultimately show ?thesis
    using assms(3)
    by (simp add: refresh_vault_cache_def outcome_simps aget_def store_snapshot_eq)
      (simp add: toy_env_def demo_vault toy_cache_def)
qed

lemma toy_new_client:
  assumes "length h < 100"
  shows "\<exists>s h'. new_client toy_env toy_config ''dev'' h = (Ok (new_config toy_config ''dev'', s), h')
     \<and> vault s = Some toy_cache"
proof -
  let ?c = "new_config toy_config ''dev''"
  obtain r where auth: "authenticate toy_env (cfg_base_url ?c) ''u@x'' ''pw'' None None ''dev'' h
      = (Ok (''at'', ''rt'', 3600, demo_key),
         h @ [HttpSent (prelogin_request (cfg_base_url ?c) ''u@x''), HttpSent r])"
    using toy_authenticate [of "\<lambda>h. Inr ok_response" h "cfg_base_url ?c" "''dev''"] by (auto simp: toy_env_def)
  define h2 where "h2 = h @ [HttpSent (prelogin_request (cfg_base_url ?c) ''u@x''), HttpSent r]"
  let ?s = "\<lparr>access_token = ''at'', sess_refresh_token = ''rt'',
      token_expires_at = 3603000000000 + int (length h) * 1000000000,
      sym_key = demo_key, vault = None, last_refresh_at = 4000000000 + int (length h) * 1000000000\<rparr>"
  obtain w' where w': "refresh_vault_cache toy_env ?c \<lparr>trace = h2 @ [ClockRead, ClockRead], session = ?s\<rparr> = (Ok (), w')"
    "vault (session w') = Some toy_cache"
    using toy_refresh [of "\<lparr>trace = h2 @ [ClockRead, ClockRead], session = ?s\<rparr>" ?c] assms
    by (auto simp: h2_def)
  have cfg: "cfg_email ?c = ''u@x''" "cfg_password ?c = ''pw''" "cfg_client_id ?c = None"
    "cfg_client_secret ?c = None" "cfg_device_id ?c = ''dev''"
    by (simp_all add: new_config_def toy_config_def)
  have clock: "read_clock toy_env h = (Ok (int (length h + 1) * 1000000000), h @ [ClockRead])" for h
    by (simp add: read_clock_def toy_env_def)
  have len: "length h2 = length h + 2" by (simp add: h2_def)
  have "new_client toy_env toy_config ''dev'' h = (Ok (?c, session w'), trace w')"
    using auth w'(1) h2_def assms
    by (simp add: new_client_def Let_def cfg outcome_simps clock alift_def len run_session_def areturn_def
        instant_add_def nanos_def)
  with w'(2) show ?thesis by blast
qed

lemma run_session_adds [adds_rules]:
  "adds trace (at_most n) m \<Longrightarrow> adds (\<lambda>h. h) (at_most n) (run_session s m)"
  unfolding adds_def
proof
  fix h
  assume "\<forall>w. \<exists>new. trace (snd (m w)) = trace w @ new \<and> at_most n new"
  then have "\<exists>new. trace (snd (m \<lparr>trace = h, session = s\<rparr>)) = trace \<lparr>trace = h, session = s\<rparr> @ new
      \<and> at_most n new" by blast
  then obtain new where "trace (snd (m \<lparr>trace = h, session = s\<rparr>)) = h @ new" "at_most n new" by auto
  then show "\<exists>new. snd (run_session s m h) = h @ new \<and> at_most n new"
    by (auto simp: run_session_def split: prod.splits outcome.splits)
qed

lemma new_client_adds [adds_rules]: "adds (\<lambda>h. h) (at_most 13) (new_client E c dev)"
  unfolding new_client_def Let_def
  by (rule adds_weaken, (rule adds_rules refresh_vault_cache_adds)+) simp

lemma initialize_unrolled:
  "initialize_vault_client E c dev =
     amatch (new_client E c (dev 1)) areturn (\<lambda>_.
     abind (sleep_for (nanos 20)) (\<lambda>_. amatch (new_client E c (dev 2)) areturn (\<lambda>_.
     abind (sleep_for (nanos 45)) (\<lambda>_. new_client E c (dev 3)))))"
proof -
  have "[1..<max_retries + 1] = [1, 2, 3]" by (simp add: max_retries_def upt_rec)
  moreover have "amatch m areturn afail = m" for m :: "(history, vault_error, client_config \<times> session) action"
    by (rule ext) (simp add: action_defs split: prod.split outcome.split)
  ultimately show ?thesis
    by (simp add: initialize_vault_client_def max_retries_def)
qed

lemma initialize_adds: "adds (\<lambda>h. h) (at_most 39) (initialize_vault_client E c dev)"
  unfolding initialize_unrolled by (rule adds_weaken, (rule adds_rules)+) simp

text \<open>A server that rejects the first request after a clock reading and accepts everything else, and
  a session whose account key was replaced on the server.\<close>

definition rejecting_env :: "bytes env" where
  "rejecting_env = server_env
     (\<lambda>h. if length h = 2 then Inr \<lparr>http_status = 401, http_body_read = Inr []\<rparr> else Inr ok_response) toy_token"

definition rotated_world :: world where
  "rotated_world = \<lparr>trace = [], session = toy_session\<lparr>sym_key := demo_org_key, sess_refresh_token := []\<rparr>\<rparr>"

lemma down_sync:
  "fetch_sync (server_env (\<lambda>h. Inl e) t) b tok h = (Err (SyncHttp e), h @ [HttpSent (sync_request b tok)])"
  by (simp add: fetch_sync_def http_send_def outcome_simps afail_def)

lemma rejected_sync:
  "fetch_sync rejecting_env b tok [e] = (Err Unauthorized, [e, HttpSent (sync_request b tok)])"
  by (simp add: fetch_sync_def http_send_def rejecting_env_def outcome_simps afail_def)

lemma rotated_reauth:
  fixes sent
  defines "sent \<equiv> HttpSent (sync_request (cfg_base_url toy_config) ''at'')"
  shows "\<exists>h4. length h4 = 4
    \<and> do_refresh_or_reauth rejecting_env toy_config (rotated_world\<lparr>trace := [ClockRead, sent]\<rparr>) =
      (Ok (), \<lparr>trace = h4 @ [ClockRead], session = (session rotated_world)\<lparr>access_token := ''at'',
         sess_refresh_token := ''rt'', token_expires_at := 3605000000000, sym_key := demo_key\<rparr>\<rparr>)"
proof -
  obtain r where auth: "authenticate rejecting_env (cfg_base_url toy_config) ''u@x'' ''pw'' None None [] [ClockRead, sent]
      = (Ok (''at'', ''rt'', 3600, demo_key),
         [ClockRead, sent, HttpSent (prelogin_request (cfg_base_url toy_config) ''u@x''), HttpSent r])"
    unfolding rejecting_env_def
    using toy_authenticate [where answer = "\<lambda>h. if length h = 2
        then Inr \<lparr>http_status = 401, http_body_read = Inr []\<rparr> else Inr ok_response"
      and h = "[ClockRead, sent]" and b = "cfg_base_url toy_config" and dev = "[]"]
    by auto
  let ?h4 = "[ClockRead, sent, HttpSent (prelogin_request (cfg_base_url toy_config) ''u@x''), HttpSent r]"
  have "do_refresh_or_reauth rejecting_env toy_config (rotated_world\<lparr>trace := [ClockRead, sent]\<rparr>) =
      (Ok (), \<lparr>trace = ?h4 @ [ClockRead], session = (session rotated_world)\<lparr>access_token := ''at'',
         sess_refresh_token := ''rt'', token_expires_at := 3605000000000, sym_key := demo_key\<rparr>\<rparr>)"
    using auth
    by (simp add: do_refresh_or_reauth_def refresh_token_def rotated_world_def re_authenticate_def
        toy_config_def action_defs expiry_instant_def read_clock_def Let_def instant_add_def nanos_def)
      (simp add: rejecting_env_def)
  then show ?thesis by (intro exI [of _ ?h4]) simp
qed

text \<open>A server that is down: every request fails on the wire.\<close>

definition down_env :: "bytes env" where
  "down_env = server_env (\<lambda>h. Inl ''connection refused'') toy_token"

definition idle_world :: world where
  "idle_world = \<lparr>trace = [], session = toy_session\<lparr>last_refresh_at := - int (nanos 60)\<rparr>\<rparr>"

section \<open>Properties\<close>

text \<open>C2. A successful \<open>fetch_secrets\<close> returns one value per request, in order, each the secret of
  the item the request denotes, and all of them from one snapshot: the one the session holds
  afterwards. There are no partial results.\<close>

theorem fetch_secrets_aligned:
  assumes "fetch_secrets E c reqs w = (Ok vs, w')"
  shows "\<exists>cache. vault (session w') = Some cache \<and>
    list_all2 (\<lambda>req v. \<exists>item. lookup_item (ucd_of E) cache (req_name req) (req_vault req) = Ok item
        \<and> item \<in> set (items cache) \<and> v = extract_secret item) reqs vs"
proof -
  have "try_fetch_secrets E (session w') reqs = Ok vs"
    using assms by (rule vault_client.fetch_Ok_attempt)
  then obtain cache where cache: "vault (session w') = Some cache"
    "list_all2 (\<lambda>req v. lookup_secret E cache req = Ok v) reqs vs"
    by (auto simp: try_fetch_Ok)
  from cache(2) have "list_all2 (\<lambda>req v. \<exists>item. lookup_item (ucd_of E) cache (req_name req) (req_vault req)
      = Ok item \<and> item \<in> set (items cache) \<and> v = extract_secret item) reqs vs"
    by (rule list_all2_mono) (auto simp: lookup_secret_Ok dest: lookup_item_Ok_member)
  with cache(1) show ?thesis by blast
qed

theorem fetch_secrets_aligned_witness:
  "\<exists>item \<in> set (items toy_cache).
     fst (fetch_secrets toy_env toy_config [\<lparr>req_name = ''DB'', req_vault = Some ''apollo''\<rparr>] toy_world)
       = Ok [extract_secret item] \<and> extract_secret item = ''shared''"
proof -
  let ?reqs = "[\<lparr>req_name = ''DB'', req_vault = Some ''apollo''\<rparr>]"
  have low: "to_lowercase toy_ucd ''DB'' = ''db''" "to_lowercase toy_ucd ''db'' = ''db''"
    "to_lowercase toy_ucd ''apollo'' = ''apollo''" "to_lowercase toy_ucd ''Apollo'' = ''apollo''"
    by (simp_all add: to_lowercase_ascii is_ascii_def ascii_lower_def char_of_eq_iff)
  have look: "lookup_item toy_ucd toy_cache ''DB'' (Some ''apollo'') = Ok (demo_item ''c2'' (Some ''o1'') ''db'' ''shared'')"
    by (simp add: lookup_item_def toy_cache_def index_orgs_def demo_orgs_def low find_item_def in_scope_def
        demo_item_def)
  have fetch: "fetch_secrets toy_env toy_config ?reqs toy_world = (Ok [''shared''], toy_world)"
    using look
    by (simp add: fetch_secrets_def try_fetch_secrets_def toy_world_def toy_session_def lookup_secret_def
        toy_env_def) (simp add: extract_secret_def demo_item_def)
  show ?thesis
    using fetch_secrets_aligned [OF fetch] look fetch
    by (auto simp: toy_world_def toy_session_def toy_env_def)
qed

text \<open>C17. When a lookup touches the outside: nothing is sent unless the first attempt fails with a
  staleness-class miss (an ambiguous vault name or a success sends nothing); then the clock is
  read, and inside the cooldown that is all; outside it the one refresh sends at most ten requests.\<close>

theorem fetch_secrets_requests:
  "\<exists>new. trace (snd (fetch_secrets E c reqs w)) = trace w @ new \<and>
     (case try_fetch_secrets E (session w) reqs of
        Err e \<Rightarrow>
          if stale_miss e
          then (if saturating_duration_since (clock_at E (trace w @ [ClockRead])) (last_refresh_at (session w))
                  < min_refresh_interval c
                then new = [ClockRead] else http_count new \<le> 10)
          else new = []
      | _ \<Rightarrow> new = [])"
proof (cases "\<exists>e. try_fetch_secrets E (session w) reqs = Err e \<and> stale_miss e")
  case False
  then have "fetch_secrets E c reqs w = (try_fetch_secrets E (session w) reqs, w)"
    by (intro vault_client.fetch_other) blast
  then show ?thesis using False by (auto split: outcome.split)
next
  case True
  then obtain e where e: "try_fetch_secrets E (session w) reqs = Err e" "stale_miss e" by blast
  have same: "snd (fetch_secrets E c reqs w) = snd (refresh_if_due E c w)"
    using e by (cases w rule: vault_client.fetch_cases [where E = E and reqs = reqs and c = c]) auto
  obtain new where new: "trace (snd (refresh_if_due E c w)) = trace w @ new" "http_count new \<le> 10"
    using addsD [OF refresh_if_due_adds, of E c w] by (auto simp: at_most_def)
  show ?thesis
  proof (cases "saturating_duration_since (clock_at E (trace w @ [ClockRead])) (last_refresh_at (session w))
      < min_refresh_interval c")
    case True
    then show ?thesis using e same by (simp add: refresh_if_due_eq)
  next
    case False
    then show ?thesis using e same new by auto
  qed
qed

text \<open>C10. A refresh of the snapshot is atomic: either it succeeds, and then the snapshot is the
  decryption of the \<open>/api/sync\<close> answer just served to the session's token and its age starts at
  the last clock reading; or it fails or panics, and then snapshot and age are what they were.\<close>

theorem refresh_vault_cache_atomic:
  "\<exists>r w'. refresh_vault_cache E c w = (r, w') \<and>
     ((r = Ok () \<and>
       (\<exists>sync h. trace w' = h @ [ClockRead] \<and> served_sync E c (access_token (session w')) h sync
         \<and> vault (session w') = Some (fst (decrypt_vault (hash_iter E) (ucd_of E) (prims_of E) sync
              (sym_key (session (snd (ensure_valid_token E c w))))))
         \<and> last_refresh_at (session w') = clock_at E (trace w')))
     \<or> (\<exists>e. r = Err e \<or> r = Panic) \<and> vault (session w') = vault (session w)
         \<and> last_refresh_at (session w') = last_refresh_at (session w))"
proof -
  obtain r w' where rw: "refresh_vault_cache E c w = (r, w')" by (cases "refresh_vault_cache E c w")
  show ?thesis
    using refresh_outcome [OF rw] by (intro exI [of _ r] exI [of _ w']) (auto simp: rw snapshot_def)
qed

text \<open>After \<open>VaultClient::new\<close> the client always has a usable snapshot, whatever lookups, background
  refreshes and token renewals happen and however they end: no lookup reports an uninitialized
  vault, and a lookup never panics on an empty organization entry.\<close>

theorem client_run_usable:
  assumes "client_run E c w"
  shows "vault (session w) \<noteq> None
    \<and> try_fetch_secrets E (session w) reqs \<noteq> Panic
    \<and> fst (fetch_secrets E c reqs w) \<noteq> Err NotInitialized"
  using client_run_initialized [OF assms] by (rule initialized_usable)

theorem client_run_usable_witness:
  "\<exists>c w. client_run toy_env c w \<and> vault (session w) \<noteq> None
    \<and> try_fetch_secrets toy_env (session w) [] \<noteq> Panic
    \<and> fst (fetch_secrets toy_env c [] w) \<noteq> Err NotInitialized"
proof -
  obtain s h' where "new_client toy_env toy_config ''dev'' [] = (Ok (new_config toy_config ''dev'', s), h')"
    using toy_new_client [of "[]"] by auto
  then have "client_run toy_env (new_config toy_config ''dev'') \<lparr>trace = h', session = s\<rparr>"
    by (rule client_run.started)
  with client_run_usable [OF this, of "[]"] show ?thesis by blast
qed

text \<open>Start-up makes at most three attempts, 20 and 45 seconds apart: it returns the first
  client that initializes, the error of the third attempt otherwise, never runs off the end of
  its loop, and sends at most 39 requests.\<close>

theorem initialize_attempts:
  "initialize_vault_client E c dev h =
     amatch (new_client E c (dev 1)) areturn (\<lambda>_.
     abind (sleep_for (nanos 20)) (\<lambda>_. amatch (new_client E c (dev 2)) areturn (\<lambda>_.
     abind (sleep_for (nanos 45)) (\<lambda>_. new_client E c (dev 3))))) h
   \<and> (\<exists>new. snd (initialize_vault_client E c dev h) = h @ new \<and> http_count new \<le> 39)"
  using addsD [OF initialize_adds, of E c dev h] by (simp add: initialize_unrolled at_most_def)

text \<open>A token answer whose lifetime does not fit an instant panics the refresh, after the access
  token was already replaced and before the expiry was: the session is left inconsistent.\<close>

theorem refresh_expiry_overflow_panics:
  assumes "refresh_token E (cfg_base_url c) (sess_refresh_token (session w)) (trace w) = (Ok (tok, rt, ex), h)"
    and "2 ^ 63 \<le> unat ex" and "0 \<le> clock_at E (h @ [ClockRead])"
  shows "\<exists>w'. do_refresh_or_reauth E c w = (Panic, w') \<and> access_token (session w') = tok
    \<and> token_expires_at (session w') = token_expires_at (session w)"
proof -
  have "int (2 ^ 63) \<le> int (unat ex)" using assms(2) by (simp only: of_nat_le_iff)
  moreover have "0 \<le> clock_at E (h @ [ClockRead]) div 1000000000"
    using assms(3) by (simp add: pos_imp_zdiv_nonneg_iff)
  ultimately have "2 ^ 63 \<le> (clock_at E (h @ [ClockRead]) + int (unat ex * 1000000000)) div 1000000000"
    by simp
  then have "instant_add (clock_at E (h @ [ClockRead])) (nanos (unat ex)) = (Panic :: (vault_error, instant) outcome)"
    by (simp add: instant_add_def nanos_def Let_def)
  then show ?thesis
    using assms(1)
    by (simp add: do_refresh_or_reauth_def expiry_instant_def action_defs read_clock_def Let_def)
qed

theorem refresh_expiry_overflow_panics_witness:
  "\<exists>w'. do_refresh_or_reauth (server_env (\<lambda>h. Inr ok_response) (toy_token\<lparr>tok_expires_in := 2 ^ 63\<rparr>))
      toy_config toy_world = (Panic, w') \<and> access_token (session w') = ''at''
    \<and> token_expires_at (session w') = token_expires_at (session toy_world)"
  by (rule refresh_expiry_overflow_panics [where ex = "2 ^ 63" and rt = "Some ''rt''"
        and h = "[HttpSent (token_request (cfg_base_url toy_config) (refresh_params ''rt''))]"])
    (simp_all add: refresh_token_Ok toy_world_def toy_session_def, simp add: toy_token_def)

text \<open>C40. After a 401 the snapshot can be decrypted with a key the session no longer has: the key is
  read before the request and not read again after the re-authentication. If the account key was
  replaced on the server, the refresh succeeds and stores a snapshot with no item, although under
  the session's new key the same answer has items.\<close>

theorem refresh_uses_stale_key:
  "\<exists>(E :: bytes env) c w w' sync. refresh_vault_cache E c w = (Ok (), w')
     \<and> (\<exists>h. served_sync E c (access_token (session w')) h sync \<and> trace w' = h @ [ClockRead])
     \<and> map_option items (vault (session w')) = Some []
     \<and> items (fst (decrypt_vault (hash_iter E) (ucd_of E) (prims_of E) sync (sym_key (session w')))) \<noteq> []"
proof -
  let ?E = rejecting_env and ?c = toy_config and ?w = rotated_world
  let ?sync = "HttpSent (sync_request (cfg_base_url ?c) ''at'')"
  obtain h4 where len: "length h4 = 4"
    and reauth: "do_refresh_or_reauth ?E ?c (?w\<lparr>trace := [ClockRead, ?sync]\<rparr>) =
      (Ok (), \<lparr>trace = h4 @ [ClockRead], session = (session ?w)\<lparr>access_token := ''at'', sess_refresh_token := ''rt'',
      token_expires_at := 3605000000000, sym_key := demo_key\<rparr>\<rparr>)"
    using rotated_reauth by blast
  let ?w5 = "\<lparr>trace = h4 @ [ClockRead], session = (session ?w)\<lparr>access_token := ''at'', sess_refresh_token := ''rt'',
      token_expires_at := 3605000000000, sym_key := demo_key\<rparr>\<rparr>"
  have ensure: "ensure_valid_token ?E ?c ?w = (Ok (), ?w\<lparr>trace := [ClockRead]\<rparr>)"
    unfolding rejecting_env_def by (subst toy_ensure) (simp_all add: rotated_world_def toy_session_def nanos_def)
  have sync: "fetch_sync ?E (cfg_base_url ?c) ''at'' (h4 @ [ClockRead]) = (Ok demo_sync, h4 @ [ClockRead, ?sync])"
    unfolding rejecting_env_def by (subst toy_fetch_sync) (simp_all add: len)
  let ?w6 = "?w5\<lparr>trace := h4 @ [ClockRead, ?sync]\<rparr>"
  have "fetch_sync_renewing ?E ?c ''at'' (?w\<lparr>trace := [ClockRead]\<rparr>) = (Ok demo_sync, ?w6)"
    using reauth sync
    by (simp add: fetch_sync_renewing_def azoom_def rejected_sync outcome_simps aget_def areturn_def
        amatch_def)
  then have "refresh_vault_cache ?E ?c ?w = store_snapshot ?E
      (fst (decrypt_vault (hash_iter ?E) (ucd_of ?E) (prims_of ?E) demo_sync demo_org_key)) ?w6"
    using ensure
    by (simp add: refresh_vault_cache_def outcome_simps aget_def)
      (simp add: rotated_world_def toy_session_def outcome_simps)
  moreover have "items (fst (decrypt_vault (hash_iter ?E) (ucd_of ?E) (prims_of ?E) demo_sync demo_org_key)) = []"
    by (simp add: rejecting_env_def demo_vault_wrong_key)
  moreover have "items (fst (decrypt_vault (hash_iter ?E) (ucd_of ?E) (prims_of ?E) demo_sync demo_key)) \<noteq> []"
    by (simp add: rejecting_env_def demo_vault)
  moreover have "served_sync ?E ?c ''at'' (h4 @ [ClockRead, ?sync]) demo_sync"
    using fetch_sync_served [OF sync] .
  ultimately show ?thesis
    by (intro exI [of _ ?E] exI [of _ ?c] exI [of _ ?w] exI [of _ "snd (refresh_vault_cache ?E ?c ?w)"]
        exI [of _ demo_sync]) (simp add: store_snapshot_eq)
qed

text \<open>A failed on-demand refresh does not start the cooldown: with the server down, two lookups
  that miss, seconds apart and well inside one cooldown window, both send requests.\<close>

theorem failed_refresh_no_cooldown:
  "\<exists>(E :: bytes env) c w reqs new1 new2.
     let w1 = snd (fetch_secrets E c reqs w); w2 = snd (fetch_secrets E c reqs w1) in
     trace w1 = trace w @ new1 \<and> trace w2 = trace w1 @ new2
     \<and> 1 \<le> http_count new1 \<and> 1 \<le> http_count new2
     \<and> saturating_duration_since (clock_at E (trace w2)) (clock_at E (trace w)) < min_refresh_interval c"
proof -
  let ?reqs = "[\<lparr>req_name = ''nope'', req_vault = None\<rparr>]"
  have miss: "to_lowercase toy_ucd ''nope'' = ''nope''" "to_lowercase toy_ucd ''db'' = ''db''"
    by (simp_all add: to_lowercase_ascii is_ascii_def ascii_lower_def)
  have try1: "try_fetch_secrets down_env s ?reqs = Err (VLookup (NotFound ''nope'' 2))"
    if "vault s = Some toy_cache" for s
    using that by (simp add: try_fetch_secrets_def lookup_secret_def lookup_item_def find_item_def in_scope_def
        toy_cache_def demo_item_def miss down_env_def)
  let ?sent = "HttpSent (sync_request (cfg_base_url toy_config) ''at'')"
  have refresh: "fetch_secrets down_env toy_config ?reqs w =
      (Err (VLookup (NotFound ''nope'' 2)), w\<lparr>trace := trace w @ [ClockRead, ClockRead, ?sent]\<rparr>)"
    if "session w = session idle_world" "length (trace w) < 10" for w
  proof -
    have e: "ensure_valid_token down_env toy_config (w\<lparr>trace := trace w @ [ClockRead]\<rparr>)
        = (Ok (), w\<lparr>trace := trace w @ [ClockRead, ClockRead]\<rparr>)"
      unfolding down_env_def using that
      by (subst toy_ensure) (simp_all add: idle_world_def toy_session_def nanos_def)
    have "refresh_vault_cache down_env toy_config (w\<lparr>trace := trace w @ [ClockRead]\<rparr>) =
        (Err (VSync (SyncHttp ''connection refused'')), w\<lparr>trace := trace w @ [ClockRead, ClockRead, ?sent]\<rparr>)"
      using e that
      by (simp add: refresh_vault_cache_def outcome_simps aget_def fetch_sync_renewing_def azoom_def)
        (simp add: down_env_def idle_world_def toy_session_def down_sync amatch_def afail_def abind_def azoom_def)
    moreover have "vault (session w) = Some toy_cache" "last_refresh_at (session w) = - int (nanos 60)"
      using that by (simp_all add: idle_world_def toy_session_def)
    ultimately show ?thesis
      by (simp add: fetch_secrets_def after_miss_def try1 stale_miss_def is_stale_miss_def refresh_if_due_eq abind_def
          amatch_def areturn_def afail_def)
        (simp add: down_env_def toy_config_def saturating_duration_since_def nanos_def)
  qed
  show ?thesis
    by (intro exI [of _ down_env] exI [of _ toy_config] exI [of _ idle_world] exI [of _ ?reqs]
        exI [of _ "[ClockRead, ClockRead, ?sent]"])
      (simp add: refresh idle_world_def Let_def, simp add: down_env_def saturating_duration_since_def
        toy_config_def nanos_def)
qed

end
