(* ===== verification/Crd.thy ===== *)
theory Crd
  imports Client
begin

text \<open>
  \<open>src/crd.rs\<close> and the status half of \<open>src/controller.rs\<close>: the custom resource, the JSON form of its
  status (with the serde attributes that leave fields out), the condition list and the merge patch
  the controller sends. How the API server applies a merge patch is not under \<open>src/\<close>: it is a
  parameter, with the equations of RFC 7386 as hypothesis.
\<close>

section \<open>The custom resource\<close>

record data_item =
  di_key :: string
  di_secret_name :: "string option"
  di_vaultwarden_secret :: "string option"
  di_vault :: "string option"

record vws_spec =
  sync_interval :: string
  default_vault :: "string option"
  spec_data :: "data_item list"

definition default_sync_interval :: string where
  "default_sync_interval = ''5m''"

record status_condition =
  cond_type :: string
  cond_status :: string
  cond_reason :: string
  cond_message :: string
  cond_observed_generation :: "int option"
  cond_last_transition_time :: string

record vws_status =
  ready :: bool
  last_sync_time :: "string option"
  last_sync_error :: string
  observed_generation :: "int option"
  conditions :: "status_condition list"

text \<open>The object as the controller sees it: \<open>vws_name\<close> is \<open>name_any()\<close>, and \<open>vws_owner_ref\<close> is the
  reference \<open>controller_owner_ref\<close> builds, absent when the object has no name or uid.\<close>

record vws =
  vws_name :: string
  vws_namespace :: "string option"
  vws_generation :: "int option"
  vws_owner_ref :: "json option"
  vws_spec_of :: vws_spec
  vws_status_of :: "vws_status option"

text \<open>\<open>as_deref().filter(|s| !s.is_empty())\<close>.\<close>

definition non_empty :: "string option \<Rightarrow> string option" where
  "non_empty x = (case x of Some s \<Rightarrow> if s = [] then None else Some s | None \<Rightarrow> None)"

definition or_else :: "'a option \<Rightarrow> 'a option \<Rightarrow> 'a option" where
  "or_else a b = (case a of Some x \<Rightarrow> Some x | None \<Rightarrow> b)"

lemma non_empty_Some [simp]: "non_empty x = Some s \<longleftrightarrow> x = Some s \<and> s \<noteq> []"
  by (auto simp: non_empty_def split: option.splits if_splits)

lemma non_empty_None: "non_empty x = None \<longleftrightarrow> x = None \<or> x = Some []"
  by (auto simp: non_empty_def split: option.splits if_splits)

lemma or_else_simps [simp]: "or_else None b = b" "or_else (Some a) b = Some a"
  by (simp_all add: or_else_def)

definition resolved_secret_name :: "data_item \<Rightarrow> string option" where
  "resolved_secret_name item =
     or_else (non_empty (di_secret_name item)) (non_empty (di_vaultwarden_secret item))"

section \<open>The JSON form of the status\<close>

definition skip_none :: "string \<Rightarrow> 'a option \<Rightarrow> ('a \<Rightarrow> json) \<Rightarrow> (string \<times> json) list" where
  "skip_none k x f = (case x of None \<Rightarrow> [] | Some a \<Rightarrow> [(k, f a)])"

definition condition_json :: "status_condition \<Rightarrow> json" where
  "condition_json c = jobj
     ([(''type'', JStr (cond_type c)), (''status'', JStr (cond_status c)),
       (''reason'', JStr (cond_reason c)), (''message'', JStr (cond_message c))]
      @ skip_none ''observedGeneration'' (cond_observed_generation c) JNum
      @ [(''lastTransitionTime'', JStr (cond_last_transition_time c))])"

definition status_fields :: "vws_status \<Rightarrow> (string \<times> json) list" where
  "status_fields s =
     [(''ready'', JBool (ready s))]
     @ skip_none ''lastSyncTime'' (last_sync_time s) JStr
     @ (if last_sync_error s = [] then [] else [(''lastSyncError'', JStr (last_sync_error s))])
     @ skip_none ''observedGeneration'' (observed_generation s) JNum
     @ (if conditions s = [] then [] else [(''conditions'', JArr (map condition_json (conditions s)))])"

definition status_json :: "vws_status \<Rightarrow> json" where
  "status_json s = jobj (status_fields s)"

definition status_patch :: "vws_status \<Rightarrow> json" where
  "status_patch s =
     (let fields = map_of (status_fields s)
      in jobj [(''status'', JObj (if last_sync_error s = [] then fields(''lastSyncError'' \<mapsto> JNull) else fields))])"

section \<open>Conditions\<close>

fun position :: "('a \<Rightarrow> bool) \<Rightarrow> 'a list \<Rightarrow> nat option" where
  "position P [] = None"
| "position P (x # xs) = (if P x then Some 0 else map_option Suc (position P xs))"

definition upsert_condition :: "status_condition list \<Rightarrow> status_condition \<Rightarrow> status_condition list" where
  "upsert_condition conds new =
     (case position (\<lambda>c. cond_type c = cond_type new) conds of
        Some pos \<Rightarrow> conds[pos := new]
      | None \<Rightarrow> conds @ [new])"

text \<open>A list keyed by a field, as Kubernetes lists with \<open>listType=map\<close> are: inserting replaces the
  first entry with the key and appends where there is none.\<close>

locale keyed_list =
  fixes key :: "'a \<Rightarrow> 'k"
    and upsert :: "'a list \<Rightarrow> 'a \<Rightarrow> 'a list"
  assumes upsert_miss: "\<forall>x \<in> set xs. key x \<noteq> key y \<Longrightarrow> upsert xs y = xs @ [y]"
    and upsert_hit: "key x = key y \<Longrightarrow> \<forall>u \<in> set us. key u \<noteq> key y \<Longrightarrow> upsert (us @ x # vs) y = us @ y # vs"
begin

definition entry :: "'a list \<Rightarrow> 'k \<Rightarrow> 'a option" where
  "entry xs k = find (\<lambda>x. key x = k) xs"

lemma upsert_cases:
  obtains (miss) "\<forall>x \<in> set xs. key x \<noteq> key y" "upsert xs y = xs @ [y]"
  | (hit) us x vs where "xs = us @ x # vs" "key x = key y" "\<forall>u \<in> set us. key u \<noteq> key y"
      "upsert xs y = us @ y # vs"
proof (cases "\<exists>x \<in> set xs. key x = key y")
  case True
  then obtain us x vs where "xs = us @ x # vs" "key x = key y" "\<forall>u \<in> set us. key u \<noteq> key y"
    by (rule split_list_first_propE)
  then show thesis using hit upsert_hit [of x y us vs] by simp
next
  case False
  then show thesis using miss upsert_miss by blast
qed

lemma distinct_upsert: "distinct (map key xs) \<Longrightarrow> distinct (map key (upsert xs y))"
  by (cases rule: upsert_cases [where y = y and xs = xs]) auto

lemma keys_upsert: "key ` set (upsert xs y) = insert (key y) (key ` set xs)"
  by (cases rule: upsert_cases [where y = y and xs = xs]) auto

lemma entry_upsert: "entry (upsert xs y) k = (if k = key y then Some y else entry xs k)"
proof (cases rule: upsert_cases [where y = y and xs = xs])
  case miss
  then have "find (\<lambda>x. key x = key y) xs = None" by (auto simp: find_None_iff)
  with miss show ?thesis by (auto simp: entry_def find_append split: option.split)
next
  case (hit us x vs)
  then have "find (\<lambda>x. key x = key y) us = None" by (auto simp: find_None_iff)
  with hit show ?thesis by (auto simp: entry_def find_append split: option.split)
qed

lemma upsert_nonempty: "upsert xs y \<noteq> []"
  by (cases rule: upsert_cases [where y = y and xs = xs]) auto

end
lemma position_None: "position P xs = None \<longleftrightarrow> (\<forall>x \<in> set xs. \<not> P x)"
  by (induction xs) auto

lemma position_append: "P x \<Longrightarrow> \<forall>u \<in> set us. \<not> P u \<Longrightarrow> position P (us @ x # vs) = Some (length us)"
  by (induction us) auto

interpretation conds: keyed_list cond_type upsert_condition
proof
  show "upsert_condition xs y = xs @ [y]" if "\<forall>x \<in> set xs. cond_type x \<noteq> cond_type y"
    for y :: status_condition and xs
    using that by (simp add: upsert_condition_def position_None [THEN iffD2])
  show "upsert_condition (us @ x # vs) y = us @ y # vs"
    if "cond_type x = cond_type y" "\<forall>u \<in> set us. cond_type u \<noteq> cond_type y"
    for x y :: status_condition and us vs
  proof -
    have "position (\<lambda>c. cond_type c = cond_type y) (us @ x # vs) = Some (length us)"
      using that by (intro position_append) auto
    then show ?thesis by (simp add: upsert_condition_def)
  qed
qed

section \<open>Statuses of a sync\<close>

definition CONDITION_READY :: string where
  "CONDITION_READY = ''Ready''"

definition CONDITION_SYNC_FAILED :: string where
  "CONDITION_SYNC_FAILED = ''SyncFailed''"

definition previous_conditions :: "vws \<Rightarrow> status_condition list" where
  "previous_conditions v = (case vws_status_of v of Some s \<Rightarrow> conditions s | None \<Rightarrow> [])"

definition generation_or_zero :: "vws \<Rightarrow> int" where
  "generation_or_zero v = (case vws_generation v of Some g \<Rightarrow> g | None \<Rightarrow> 0)"

definition sync_condition :: "vws \<Rightarrow> string \<Rightarrow> string \<Rightarrow> string \<Rightarrow> string \<Rightarrow> string \<Rightarrow> status_condition" where
  "sync_condition v t st reason msg now =
     \<lparr>cond_type = t, cond_status = st, cond_reason = reason, cond_message = msg,
      cond_observed_generation = Some (generation_or_zero v), cond_last_transition_time = now\<rparr>"

text \<open>The status \<open>set_ready_status\<close> and \<open>set_failed_status\<close> write at the time \<open>now\<close>.\<close>

definition ready_status :: "vws \<Rightarrow> string \<Rightarrow> vws_status" where
  "ready_status v now =
     (let conds = filter (\<lambda>c. cond_type c \<noteq> CONDITION_SYNC_FAILED) (previous_conditions v)
      in \<lparr>ready = True, last_sync_time = Some now, last_sync_error = [],
          observed_generation = Some (generation_or_zero v),
          conditions = upsert_condition conds
            (sync_condition v CONDITION_READY ''True'' ''SyncSucceeded''
               ''Vault secrets synced successfully'' now)\<rparr>)"

definition failed_status :: "vws \<Rightarrow> string \<Rightarrow> string \<Rightarrow> vws_status" where
  "failed_status v msg now =
     (let conds = upsert_condition (previous_conditions v)
            (sync_condition v CONDITION_READY ''False'' ''SyncFailed'' msg now);
          conds' = upsert_condition conds
            (sync_condition v CONDITION_SYNC_FAILED ''True'' ''SyncFailed'' msg now)
      in \<lparr>ready = False,
          last_sync_time = (case vws_status_of v of Some s \<Rightarrow> last_sync_time s | None \<Rightarrow> None),
          last_sync_error = msg,
          observed_generation = Some (generation_or_zero v),
          conditions = conds'\<rparr>)"

section \<open>Merge patches\<close>

text \<open>The equations of RFC 7386 for a merge function: an object patch merges member by member,
  a \<open>null\<close> member removes, any other patch replaces the target.\<close>

definition member_of :: "json option \<Rightarrow> string \<rightharpoonup> json" where
  "member_of t = (case t of Some (JObj m) \<Rightarrow> m | _ \<Rightarrow> Map.empty)"

definition is_object :: "json \<Rightarrow> bool" where
  "is_object j = (case j of JObj _ \<Rightarrow> True | _ \<Rightarrow> False)"

definition merge_laws :: "(json option \<Rightarrow> json \<Rightarrow> json) \<Rightarrow> bool" where
  "merge_laws merge \<longleftrightarrow>
     (\<forall>t p. merge t (JObj p) = JObj (\<lambda>k. case p k of
          None \<Rightarrow> member_of t k
        | Some v \<Rightarrow> if v = JNull then None else Some (merge (member_of t k) v)))
     \<and> (\<forall>t v. \<not> is_object v \<longrightarrow> merge t v = v)"

primrec rfc_merge :: "json \<Rightarrow> json option \<Rightarrow> json" where
  "rfc_merge JNull = (\<lambda>t. JNull)"
| "rfc_merge (JBool b) = (\<lambda>t. JBool b)"
| "rfc_merge (JNum n) = (\<lambda>t. JNum n)"
| "rfc_merge (JStr s) = (\<lambda>t. JStr s)"
| "rfc_merge (JArr xs) = (\<lambda>t. JArr xs)"
| "rfc_merge (JObj p) = (\<lambda>t. JObj (\<lambda>k. case (map_option rfc_merge \<circ> p) k of
       None \<Rightarrow> member_of t k
     | Some f \<Rightarrow> if p k = Some JNull then None else Some (f (member_of t k))))"

lemma rfc_merge_laws: "merge_laws (\<lambda>t p. rfc_merge p t)"
  unfolding merge_laws_def
proof (intro conjI allI impI)
  show "rfc_merge (JObj p) t = JObj (\<lambda>k. case p k of None \<Rightarrow> member_of t k
      | Some v \<Rightarrow> if v = JNull then None else Some (rfc_merge v (member_of t k)))" for t p
    by (auto split: option.split)
  show "rfc_merge v t = v" if "\<not> is_object v" for t v
    using that by (cases v) (simp_all add: is_object_def)
qed

text \<open>The serialized status, member by member.\<close>

lemma map_of_status_fields:
  "map_of (status_fields s) k =
     (if k = ''ready'' then Some (JBool (ready s))
      else if k = ''lastSyncTime'' then map_option JStr (last_sync_time s)
      else if k = ''lastSyncError'' then (if last_sync_error s = [] then None else Some (JStr (last_sync_error s)))
      else if k = ''observedGeneration'' then map_option JNum (observed_generation s)
      else if k = ''conditions''
        then (if conditions s = [] then None else Some (JArr (map condition_json (conditions s))))
      else None)"
  by (auto simp: status_fields_def skip_none_def map_add_def split: option.split)

text \<open>Merging the patch of a status into a stored status gives the new status, when every optional
  field the new status leaves out was absent before.\<close>

definition covers :: "vws_status \<Rightarrow> vws_status option \<Rightarrow> bool" where
  "covers new old \<longleftrightarrow>
     observed_generation new \<noteq> None \<and> conditions new \<noteq> []
     \<and> (last_sync_time new \<noteq> None \<or> (case old of Some s \<Rightarrow> last_sync_time s | None \<Rightarrow> None) = None)"

lemma merge_value: "merge_laws merge \<Longrightarrow> \<not> is_object v \<Longrightarrow> merge t v = v"
  by (simp add: merge_laws_def)

lemma merge_object:
  "merge_laws merge \<Longrightarrow> merge t (JObj p) = JObj (\<lambda>k. case p k of
      None \<Rightarrow> member_of t k
    | Some v \<Rightarrow> if v = JNull then None else Some (merge (member_of t k) v))"
  by (simp add: merge_laws_def)

lemma status_member_old:
  "member_of (map_option status_json old) k =
     (case old of None \<Rightarrow> None | Some s \<Rightarrow> map_of (status_fields s) k)"
  by (simp add: member_of_def status_json_def split: option.split)

lemma status_merge:
  assumes laws: "merge_laws merge" and cov: "covers new old"
    and stored: "m ''status'' = map_option status_json old"
  shows "member_of (Some (merge (Some (JObj m)) (status_patch new))) ''status'' = Some (status_json new)"
proof -
  define f where "f = map_of (status_fields new)"
  define p where "p = (if last_sync_error new = [] then f(''lastSyncError'' \<mapsto> JNull) else f)"
  define t where "t = map_option status_json old"
  have vals: "v = JNull \<or> \<not> is_object v" if "p k = Some v" for k v
    using that by (auto simp: p_def f_def map_of_status_fields is_object_def split: if_splits)
  have "(case p k of None \<Rightarrow> member_of t k
      | Some v \<Rightarrow> if v = JNull then None else Some (merge (member_of t k) v)) = f k" for k
  proof (cases "p k")
    case None
    have "member_of t k = (case old of None \<Rightarrow> None | Some s \<Rightarrow> map_of (status_fields s) k)"
      by (simp only: t_def status_member_old)
    with None show ?thesis
      using cov by (cases old) (auto simp: p_def f_def covers_def map_of_status_fields split: if_splits)
  next
    case (Some v)
    then have "v = JNull \<or> merge (member_of t k) v = v" using vals [OF Some] merge_value [OF laws] by blast
    moreover have "f k = (if v = JNull then None else Some v)"
      using Some by (auto simp: p_def f_def map_of_status_fields split: if_splits)
    ultimately show ?thesis using Some by auto
  qed
  then have "merge t (JObj p) = status_json new"
    by (simp only: merge_object [OF laws] status_json_def f_def)
  moreover have "status_patch new = jobj [(''status'', JObj p)]"
    by (simp add: status_patch_def Let_def p_def f_def)
  ultimately show ?thesis
    by (simp add: merge_object [OF laws] member_of_def stored t_def)
qed

lemma ready_covers: "covers (ready_status v now) old"
  by (simp add: covers_def ready_status_def Let_def conds.upsert_nonempty)

lemma failed_covers: "covers (failed_status v msg now) (vws_status_of v)"
  by (auto simp: covers_def failed_status_def Let_def conds.upsert_nonempty split: option.split)

definition condition_of :: "status_condition list \<Rightarrow> string \<Rightarrow> status_condition option" where
  "condition_of cs t = find (\<lambda>c. cond_type c = t) cs"

lemma condition_of_entry: "condition_of cs t = conds.entry cs t"
  by (simp add: condition_of_def conds.entry_def)

lemma condition_of_filter:
  "condition_of (filter (\<lambda>c. cond_type c \<noteq> t') cs) t = (if t = t' then None else condition_of cs t)"
  by (induction cs) (auto simp: condition_of_def)

lemma condition_of_upsert:
  "condition_of (upsert_condition cs y) k = (if k = cond_type y then Some y else condition_of cs k)"
  by (simp add: condition_of_entry conds.entry_upsert)

lemma cond_type_sync [simp]: "cond_type (sync_condition v t st r msg now) = t"
  by (simp add: sync_condition_def)

section \<open>The schema of the status\<close>

text \<open>The types of the status members, as the schema of the custom resource declares them.\<close>

fun is_str :: "json \<Rightarrow> bool" where
  "is_str (JStr s) = True"
| "is_str _ = False"

fun is_num :: "json \<Rightarrow> bool" where
  "is_num (JNum n) = True"
| "is_num _ = False"

fun is_bool :: "json \<Rightarrow> bool" where
  "is_bool (JBool b) = True"
| "is_bool _ = False"

definition optional_member :: "(json \<Rightarrow> bool) \<Rightarrow> (string \<rightharpoonup> json) \<Rightarrow> string \<Rightarrow> bool" where
  "optional_member P m k = (case m k of None \<Rightarrow> True | Some v \<Rightarrow> P v)"

definition required_member :: "(json \<Rightarrow> bool) \<Rightarrow> (string \<rightharpoonup> json) \<Rightarrow> string \<Rightarrow> bool" where
  "required_member P m k = (case m k of None \<Rightarrow> False | Some v \<Rightarrow> P v)"

lemma optional_memberD: "optional_member P m k \<Longrightarrow> m k = Some v \<Longrightarrow> P v"
  by (simp add: optional_member_def)

text \<open>Objects have declared members only: the API server prunes any other.\<close>

definition only_members :: "(string \<rightharpoonup> json) \<Rightarrow> string list \<Rightarrow> bool" where
  "only_members m ks \<longleftrightarrow> dom m \<subseteq> set ks"

definition condition_strings :: "string list" where
  "condition_strings = [''type'', ''status'', ''reason'', ''message'', ''lastTransitionTime'']"

fun condition_schema :: "json \<Rightarrow> bool" where
  "condition_schema (JObj m) \<longleftrightarrow>
     only_members m (''observedGeneration'' # condition_strings)
     \<and> list_all (required_member is_str m) condition_strings
     \<and> optional_member is_num m ''observedGeneration''"
| "condition_schema _ \<longleftrightarrow> False"

fun conditions_schema :: "json \<Rightarrow> bool" where
  "conditions_schema (JArr cs) \<longleftrightarrow> list_all condition_schema cs"
| "conditions_schema _ \<longleftrightarrow> False"

fun status_schema :: "json \<Rightarrow> bool" where
  "status_schema (JObj m) \<longleftrightarrow>
     only_members m [''ready'', ''lastSyncTime'', ''lastSyncError'', ''observedGeneration'', ''conditions'']
     \<and> optional_member is_bool m ''ready'' \<and> optional_member is_str m ''lastSyncTime''
     \<and> optional_member is_str m ''lastSyncError'' \<and> optional_member is_num m ''observedGeneration''
     \<and> optional_member conditions_schema m ''conditions''"
| "status_schema _ \<longleftrightarrow> False"

lemma condition_json_schema: "condition_schema (condition_json c)"
proof (cases "cond_observed_generation c")
  case None
  then show ?thesis
    by (simp add: condition_json_def skip_none_def only_members_def condition_strings_def required_member_def
        optional_member_def subset_insertI2)
next
  case (Some g)
  then show ?thesis
    by (simp add: condition_json_def skip_none_def only_members_def condition_strings_def required_member_def
        optional_member_def subset_insertI2)
qed

text \<open>The type of each member of a status.\<close>

definition status_member :: "string \<Rightarrow> json \<Rightarrow> bool" where
  "status_member k v \<longleftrightarrow>
     (if k = ''ready'' then is_bool v
      else if k \<in> {''lastSyncTime'', ''lastSyncError''} then is_str v
      else if k = ''observedGeneration'' then is_num v
      else k = ''conditions'' \<and> conditions_schema v)"

lemma status_schema_members: "status_schema (JObj m) \<longleftrightarrow> (\<forall>k v. m k = Some v \<longrightarrow> status_member k v)"
proof
  assume *: "status_schema (JObj m)"
  show "\<forall>k v. m k = Some v \<longrightarrow> status_member k v"
  proof (intro allI impI)
    fix k v
    assume m: "m k = Some v"
    from * have "dom m \<subseteq> set [''ready'', ''lastSyncTime'', ''lastSyncError'', ''observedGeneration'', ''conditions'']"
      unfolding status_schema.simps only_members_def by (elim conjE)
    from subsetD [OF this domI, OF m]
    have "k = ''ready'' \<or> k = ''lastSyncTime'' \<or> k = ''lastSyncError'' \<or> k = ''observedGeneration'' \<or> k = ''conditions''"
      by simp
    moreover have "m ''ready'' = Some v \<Longrightarrow> is_bool v" "m ''lastSyncTime'' = Some v \<Longrightarrow> is_str v"
      "m ''lastSyncError'' = Some v \<Longrightarrow> is_str v" "m ''observedGeneration'' = Some v \<Longrightarrow> is_num v"
      "m ''conditions'' = Some v \<Longrightarrow> conditions_schema v"
      using * by (simp_all add: optional_member_def)
    ultimately show "status_member k v"
      using m by (elim disjE) (simp_all add: status_member_def)
  qed
next
  assume *: "\<forall>k v. m k = Some v \<longrightarrow> status_member k v"
  then have member: "optional_member (status_member k) m k" for k
    by (simp add: optional_member_def split: option.split)
  have "only_members m [''ready'', ''lastSyncTime'', ''lastSyncError'', ''observedGeneration'', ''conditions'']"
    unfolding only_members_def
  proof
    fix k
    assume "k \<in> dom m"
    then obtain v where "m k = Some v" by blast
    with * have "status_member k v" by (elim allE impE) assumption+
    then show "k \<in> set [''ready'', ''lastSyncTime'', ''lastSyncError'', ''observedGeneration'', ''conditions'']"
      by (simp add: status_member_def split: if_splits) blast
  qed
  with member [of "''ready''"] member [of "''lastSyncTime''"] member [of "''lastSyncError''"]
    member [of "''observedGeneration''"] member [of "''conditions''"]
  show "status_schema (JObj m)" by (simp add: status_member_def [abs_def])
qed

lemma status_fields_typed: "map_of (status_fields s) k = Some v \<Longrightarrow> status_member k v"
  by (auto simp: map_of_status_fields status_member_def list_all_iff condition_json_schema split: if_splits)

lemma status_json_schema: "status_schema (status_json s)"
  unfolding status_json_def status_schema_members using status_fields_typed by blast

text \<open>A status patch is an object with the member \<open>status\<close> only, and leaves a status of the schema one.\<close>

lemma status_patch_keeps_schema:
  assumes "merge_laws merge" and "case m ''status'' of None \<Rightarrow> True | Some st \<Rightarrow> status_schema st"
  shows "\<exists>obj st. merge (Some (JObj m)) (status_patch s) = JObj obj \<and> obj ''status'' = Some st \<and> status_schema st
    \<and> (\<forall>k. k \<noteq> ''status'' \<longrightarrow> obj k = m k)"
proof -
  define f where "f = map_of (status_fields s)"
  define p where "p = (if last_sync_error s = [] then f(''lastSyncError'' \<mapsto> JNull) else f)"
  let ?old = "member_of (m ''status'')"
  let ?new = "\<lambda>k. case p k of None \<Rightarrow> ?old k | Some v \<Rightarrow> if v = JNull then None else Some (merge (?old k) v)"
  have old: "status_member k v" if "?old k = Some v" for k v
    using assms(2) that status_schema_members by (auto simp: member_of_def split: option.splits json.splits)
  have new: "status_member k v" if "p k = Some v" "v \<noteq> JNull" for k v
    using that status_fields_typed by (auto simp: p_def f_def split: if_splits)
  have flat: "merge t v = v" if "p k = Some v" "v \<noteq> JNull" for t k v
  proof (rule merge_value [OF assms(1)])
    show "\<not> is_object v"
      using that by (auto simp: p_def f_def map_of_status_fields is_object_def split: if_splits)
  qed
  have "status_schema (JObj ?new)"
    unfolding status_schema_members using old new flat by (fastforce split: option.splits if_splits)
  moreover have "status_patch s = jobj [(''status'', JObj p)]"
    by (simp add: status_patch_def Let_def p_def f_def)
  moreover have "merge (m ''status'') (JObj p) = JObj ?new"
    by (rule merge_object [OF assms(1)])
  ultimately have "merge (Some (JObj m)) (status_patch s) = JObj (m(''status'' \<mapsto> JObj ?new))"
    by (simp add: merge_object [OF assms(1), of "Some (JObj m)"] member_of_def [of "Some (JObj m)"] fun_eq_iff)
  with \<open>status_schema (JObj ?new)\<close> show ?thesis
    by (intro exI [of _ "m(''status'' \<mapsto> JObj ?new)"] exI [of _ "JObj ?new"]) (simp del: status_schema.simps)
qed

lemma upsert_distinct: "distinct (map cond_type cs) \<Longrightarrow> distinct (map cond_type (upsert_condition cs y))"
  by (rule conds.distinct_upsert)

section \<open>Properties\<close>

text \<open>C27. The conditions a sync writes: a success sets \<open>Ready\<close> to true and removes \<open>SyncFailed\<close>, a
  failure sets \<open>Ready\<close> to false and \<open>SyncFailed\<close> to true with the message; conditions of any other
  type, set by other controllers, are kept as they were.\<close>

theorem condition_transitions:
  "condition_of (conditions (ready_status v now)) t =
     (if t = CONDITION_READY
      then Some (sync_condition v CONDITION_READY ''True'' ''SyncSucceeded''
             ''Vault secrets synced successfully'' now)
      else if t = CONDITION_SYNC_FAILED then None
      else condition_of (previous_conditions v) t)
   \<and> condition_of (conditions (failed_status v msg now)) t =
     (if t = CONDITION_READY
      then Some (sync_condition v CONDITION_READY ''False'' ''SyncFailed'' msg now)
      else if t = CONDITION_SYNC_FAILED
      then Some (sync_condition v CONDITION_SYNC_FAILED ''True'' ''SyncFailed'' msg now)
      else condition_of (previous_conditions v) t)"
proof -
  have types: "CONDITION_READY \<noteq> CONDITION_SYNC_FAILED"
    by (simp add: CONDITION_READY_def CONDITION_SYNC_FAILED_def)
  have "conditions (ready_status v now) = upsert_condition
      (filter (\<lambda>c. cond_type c \<noteq> CONDITION_SYNC_FAILED) (previous_conditions v))
      (sync_condition v CONDITION_READY ''True'' ''SyncSucceeded'' ''Vault secrets synced successfully'' now)"
    by (simp only: ready_status_def Let_def vws_status.simps)
  moreover have "conditions (failed_status v msg now) = upsert_condition (upsert_condition (previous_conditions v)
      (sync_condition v CONDITION_READY ''False'' ''SyncFailed'' msg now))
      (sync_condition v CONDITION_SYNC_FAILED ''True'' ''SyncFailed'' msg now)"
    by (simp only: failed_status_def Let_def vws_status.simps)
  ultimately show ?thesis
    using types by (simp only: condition_of_upsert condition_of_filter cond_type_sync) simp
qed

text \<open>The merge patch has the effect its comment promises: applied by RFC 7386 to an object
  whose status is the serialization of any earlier status, the patch of a success leaves exactly
  the serialization of the new status (an earlier \<open>lastSyncError\<close> is gone), and so does the patch
  of a failure on the status the controller saw (which keeps \<open>lastSyncTime\<close>).\<close>

theorem status_patch_effective:
  assumes "merge_laws merge" and "m ''status'' = map_option status_json old"
  shows "member_of (Some (merge (Some (JObj m)) (status_patch (ready_status v now)))) ''status''
      = Some (status_json (ready_status v now))
    \<and> (old = vws_status_of v \<longrightarrow>
       member_of (Some (merge (Some (JObj m)) (status_patch (failed_status v msg now)))) ''status''
      = Some (status_json (failed_status v msg now)))"
proof -
  have "member_of (Some (merge (Some (JObj m)) (status_patch (ready_status v now)))) ''status''
      = Some (status_json (ready_status v now))"
    using assms(1) ready_covers assms(2) by (rule status_merge)
  moreover have "member_of (Some (merge (Some (JObj m)) (status_patch (failed_status v msg now)))) ''status''
      = Some (status_json (failed_status v msg now))" if "old = vws_status_of v"
    using assms(1) _ assms(2) by (rule status_merge) (simp add: that failed_covers)
  ultimately show ?thesis by blast
qed

text \<open>A custom resource with one entry and an earlier failure.\<close>

definition toy_vws :: vws where
  "toy_vws = \<lparr>vws_name = ''app'', vws_namespace = Some ''prod'', vws_generation = Some 2,
     vws_owner_ref = Some (jobj [(''name'', JStr ''app''), (''uid'', JStr ''42'')]),
     vws_spec_of = \<lparr>sync_interval = ''5m'', default_vault = None,
       spec_data = [\<lparr>di_key = ''pw'', di_secret_name = Some ''db'', di_vaultwarden_secret = None, di_vault = None\<rparr>]\<rparr>,
     vws_status_of = Some \<lparr>ready = False, last_sync_time = Some ''t0'', last_sync_error = ''boom'',
       observed_generation = Some 1, conditions = []\<rparr>\<rparr>"

theorem status_patch_effective_witness:
  "let stored = Some (jobj [(''spec'', JNull), (''status'', status_json (the (vws_status_of toy_vws)))]) in
   member_of (Some (rfc_merge (status_patch (ready_status toy_vws ''t1'')) stored)) ''status''
     = Some (status_json (ready_status toy_vws ''t1''))
   \<and> member_of (Some (rfc_merge (status_patch (failed_status toy_vws ''down'' ''t1'')) stored)) ''status''
     = Some (status_json (failed_status toy_vws ''down'' ''t1''))"
  using status_patch_effective [OF rfc_merge_laws,
      of "map_of [(''spec'', JNull), (''status'', status_json (the (vws_status_of toy_vws)))]"
         "vws_status_of toy_vws" toy_vws "''t1''" "''down''"]
  by (simp add: toy_vws_def del: rfc_merge.simps)

end
