(* ===== verification/Controller.thy ===== *)
theory Controller
  imports Crd Duration
begin

text \<open>
  \<open>src/controller.rs\<close>: validation of the spec (interval and lookup requests), one reconciliation of
  a custom resource with every Kubernetes call it makes, and the error policy. The state is the
  vault client's; the Kubernetes calls are events of its history, answered by the environment.
\<close>

section \<open>Validation\<close>

definition DEFAULT_SYNC_INTERVAL :: u64 where
  "DEFAULT_SYNC_INTERVAL = 300"

definition parse_sync_interval :: "'rsa env \<Rightarrow> string \<Rightarrow> (string, u64) outcome" where
  "parse_sync_interval E s =
     (if s = [] then Ok DEFAULT_SYNC_INTERVAL
      else obind (map_err (show_duration_error (debug_str E)) (parse_duration (overflow_checks E) s)) (\<lambda>d.
        if d = 0 then Err ''syncInterval must be positive'' else Ok d))"

definition missing_name_error :: "'rsa env \<Rightarrow> nat \<Rightarrow> data_item \<Rightarrow> string" where
  "missing_name_error E i item =
     ''spec.data['' @ show_nat i @ ''] (key '' @ debug_str E (di_key item)
       @ ''): one of secretName or vaultwardenSecret must be set''"

definition build_request ::
    "'rsa env \<Rightarrow> string option \<Rightarrow> nat \<times> data_item \<Rightarrow> (string, secret_request) outcome" where
  "build_request E default_v p =
     (case p of (i, item) \<Rightarrow>
        obind (ok_or (missing_name_error E i item) (resolved_secret_name item)) (\<lambda>name.
          Ok \<lparr>req_name = name, req_vault = or_else (non_empty (di_vault item)) default_v\<rparr>))"

definition build_requests :: "'rsa env \<Rightarrow> vws_spec \<Rightarrow> (string, secret_request list) outcome" where
  "build_requests E spec =
     (let default_v = non_empty (default_vault spec)
      in collect (build_request E default_v) (List.enumerate 0 (spec_data spec)))"

section \<open>Kubernetes calls\<close>

datatype reconcile_error =
    KubeError string
  | ReconcileVault vault_error
  | FinalizerError string

datatype requeue = Requeue u64 | AwaitChange

definition MANAGED_BY_LABEL :: string where
  "MANAGED_BY_LABEL = ''vaultwarden-operator''"

definition secret_get_opt :: "'rsa env \<Rightarrow> string \<Rightarrow> string \<Rightarrow> (history, reconcile_error, bool) action" where
  "secret_get_opt E ns name h =
     (let h' = h @ [SecretGet ns name] in (map_err KubeError (of_sum (secret_exists E h')), h'))"

definition kube_call :: "'rsa env \<Rightarrow> event \<Rightarrow> (history, reconcile_error, unit) action" where
  "kube_call E e h =
     (let h' = h @ [e] in
      case kube_write E h' of None \<Rightarrow> (Ok (), h') | Some msg \<Rightarrow> (Err (KubeError msg), h'))"

definition namespace_of :: "vws \<Rightarrow> string" where
  "namespace_of v = (case vws_namespace v of Some ns \<Rightarrow> ns | None \<Rightarrow> ''default'')"

definition patch_status :: "'rsa env \<Rightarrow> vws \<Rightarrow> vws_status \<Rightarrow> (history, reconcile_error, unit) action" where
  "patch_status E v s = kube_call E (StatusPatch (namespace_of v) (vws_name v) (status_patch s))"

definition set_ready_status :: "'rsa env \<Rightarrow> vws \<Rightarrow> (history, reconcile_error, unit) action" where
  "set_ready_status E v = abind (read_utc E) (\<lambda>now. patch_status E v (ready_status v now))"

definition set_failed_status :: "'rsa env \<Rightarrow> vws \<Rightarrow> string \<Rightarrow> (history, reconcile_error, unit) action" where
  "set_failed_status E v msg = abind (read_utc E) (\<lambda>now. patch_status E v (failed_status v msg now))"

section \<open>Reconciliation\<close>

text \<open>\<open>BTreeMap\<close> of key and value: a later entry with the same key replaces an earlier one.\<close>

definition secret_data :: "data_item list \<Rightarrow> string list \<Rightarrow> string \<rightharpoonup> json" where
  "secret_data its vals =
     foldl (\<lambda>m (item, value). m(di_key item \<mapsto> JStr value)) Map.empty (zip its vals)"

definition secret_body :: "vws \<Rightarrow> json \<Rightarrow> (string \<rightharpoonup> json) \<Rightarrow> json" where
  "secret_body v owner_ref sdata = jobj
     [(''apiVersion'', JStr ''v1''), (''kind'', JStr ''Secret''),
      (''metadata'', jobj
         [(''name'', JStr (vws_name v)), (''namespace'', JStr (namespace_of v)),
          (''labels'', jobj [(''app.kubernetes.io/managed-by'', JStr MANAGED_BY_LABEL)]),
          (''ownerReferences'', JArr [owner_ref])]),
      (''type'', JStr ''Opaque''), (''stringData'', JObj sdata)]"

text \<open>Create the managed Secret or apply it over the existing one. \<open>unwrap\<close> of a missing owner
  reference panics.\<close>

definition write_secret :: "'rsa env \<Rightarrow> vws \<Rightarrow> string list \<Rightarrow> (history, reconcile_error, unit) action" where
  "write_secret E v vals =
     (case vws_owner_ref v of
        None \<Rightarrow> alift Panic
      | Some owner_ref \<Rightarrow>
          let body = secret_body v owner_ref (secret_data (spec_data (vws_spec_of v)) vals) in
          abind (secret_get_opt E (namespace_of v) (vws_name v)) (\<lambda>exists_already.
            if exists_already
            then kube_call E (SecretApply (namespace_of v) (vws_name v) body)
            else kube_call E (SecretCreate (namespace_of v) body)))"

definition reconcile_apply ::
    "'rsa env \<Rightarrow> client_config \<Rightarrow> vws \<Rightarrow> (world, reconcile_error, requeue) action" where
  "reconcile_apply E c v =
     amatch (alift (parse_sync_interval E (sync_interval (vws_spec_of v))))
       (\<lambda>interval.
          amatch (alift (build_requests E (vws_spec_of v)))
            (\<lambda>requests.
               amatch (fetch_secrets E c requests)
                 (\<lambda>vals.
                    abind (net (write_secret E v vals)) (\<lambda>_.
                    abind (net (set_ready_status E v)) (\<lambda>_.
                      areturn (Requeue interval))))
                 (\<lambda>e.
                    abind (net (set_failed_status E v
                             (''failed to fetch Vaultwarden secrets: '' @ show_vault_error (debug_str E) e))) (\<lambda>_.
                      areturn (Requeue interval))))
            (\<lambda>msg. abind (net (set_failed_status E v msg)) (\<lambda>_. areturn (Requeue interval))))
       (\<lambda>msg. abind (net (set_failed_status E v msg)) (\<lambda>_. areturn (Requeue DEFAULT_SYNC_INTERVAL)))"

text \<open>The two events of the finalizer helper; a deleted resource needs nothing, its Secret goes with
  the owner reference.\<close>

datatype finalizer_event = FinalizerApply vws | FinalizerCleanup vws

definition reconcile_event ::
    "'rsa env \<Rightarrow> client_config \<Rightarrow> finalizer_event \<Rightarrow> (world, reconcile_error, requeue) action" where
  "reconcile_event E c e =
     (case e of FinalizerApply v \<Rightarrow> reconcile_apply E c v | FinalizerCleanup v \<Rightarrow> areturn AwaitChange)"

definition error_policy :: "reconcile_error \<Rightarrow> requeue" where
  "error_policy e = Requeue DEFAULT_SYNC_INTERVAL"

section \<open>Lemmas\<close>

lemma parse_sync_interval_positive: "parse_sync_interval E s = Ok d \<Longrightarrow> 0 < d"
  by (auto simp: parse_sync_interval_def DEFAULT_SYNC_INTERVAL_def outcome_iffs word_gt_0 split: if_splits)

text \<open>The answer of the API server to the last call of the history \<open>t\<close>, a write.\<close>

definition answered :: "'rsa env \<Rightarrow> history \<Rightarrow> 'a \<Rightarrow> (reconcile_error, 'a) outcome" where
  "answered E t a = (case kube_write E t of None \<Rightarrow> Ok a | Some msg \<Rightarrow> Err (KubeError msg))"

definition status_event :: "vws \<Rightarrow> vws_status \<Rightarrow> event" where
  "status_event v s = StatusPatch (namespace_of v) (vws_name v) (status_patch s)"

text \<open>What a status patch adds to the history, for the status \<open>s now\<close>.\<close>

definition patched :: "'rsa env \<Rightarrow> vws \<Rightarrow> (string \<Rightarrow> vws_status) \<Rightarrow> history \<Rightarrow> history" where
  "patched E v s h = h @ [WallClockRead, status_event v (s (utc_at E (h @ [WallClockRead])))]"

lemma kube_call_eq: "kube_call E e h = (answered E (h @ [e]) (), h @ [e])"
  by (simp add: kube_call_def answered_def Let_def split: option.split)

lemma answered_not_Panic [simp]: "answered E t a \<noteq> Panic"
  by (simp add: answered_def split: option.split)

lemma set_status_eq:
  "set_failed_status E v msg h = (answered E (patched E v (failed_status v msg) h) (), patched E v (failed_status v msg) h)"
  "set_ready_status E v h = (answered E (patched E v (ready_status v) h) (), patched E v (ready_status v) h)"
  by (simp_all add: set_failed_status_def set_ready_status_def patch_status_def abind_def amatch_def read_utc_def
      Let_def kube_call_eq patched_def status_event_def)

definition secret_get :: "vws \<Rightarrow> event" where
  "secret_get v = SecretGet (namespace_of v) (vws_name v)"

text \<open>The one write of the Secret with the values \<open>vals\<close>: an apply when it exists, otherwise a create.\<close>

definition secret_write :: "vws \<Rightarrow> json \<Rightarrow> string list \<Rightarrow> bool \<Rightarrow> event" where
  "secret_write v owner vals exists_already =
     (let body = secret_body v owner (secret_data (spec_data (vws_spec_of v)) vals) in
      if exists_already then SecretApply (namespace_of v) (vws_name v) body else SecretCreate (namespace_of v) body)"

lemma write_secret_eq:
  assumes "vws_owner_ref v = Some owner"
  shows "write_secret E v vals h =
     (case secret_exists E (h @ [secret_get v]) of
        Inl msg \<Rightarrow> (Err (KubeError msg), h @ [secret_get v])
      | Inr b \<Rightarrow> (answered E (h @ [secret_get v, secret_write v owner vals b]) (),
                  h @ [secret_get v, secret_write v owner vals b]))"
  using assms
  by (auto simp: write_secret_def secret_get_opt_def secret_get_def secret_write_def Let_def abind_def amatch_def afail_def
      kube_call_eq split: sum.split)

text \<open>What a reconciliation found out before it touches Kubernetes: the values, or the message of the
  first thing that is wrong.\<close>

definition sync_attempt :: "'rsa env \<Rightarrow> client_config \<Rightarrow> vws \<Rightarrow> world \<Rightarrow> (string, string list) outcome" where
  "sync_attempt E c v w =
     obind (parse_sync_interval E (sync_interval (vws_spec_of v))) (\<lambda>_.
     obind (build_requests E (vws_spec_of v)) (\<lambda>reqs.
       map_err (\<lambda>e. ''failed to fetch Vaultwarden secrets: '' @ show_vault_error (debug_str E) e)
         (fst (fetch_secrets E c reqs w))))"

text \<open>The interval of the resource, when it has a valid one.\<close>

definition requeue_interval :: "'rsa env \<Rightarrow> vws \<Rightarrow> u64" where
  "requeue_interval E v =
     (case parse_sync_interval E (sync_interval (vws_spec_of v)) of Ok d \<Rightarrow> d | _ \<Rightarrow> DEFAULT_SYNC_INTERVAL)"

lemma requeue_interval_positive: "0 < requeue_interval E v"
  using parse_sync_interval_positive [of E "sync_interval (vws_spec_of v)"]
  by (auto simp: requeue_interval_def DEFAULT_SYNC_INTERVAL_def word_gt_0 split: outcome.split)

lemma amatch_alift [simp]:
  "amatch (alift r) f g w = (case r of Ok a \<Rightarrow> f a w | Err e \<Rightarrow> g e w | Panic \<Rightarrow> (Panic, w))"
  by (cases r) (simp_all add: amatch_def alift_def)

lemma fail_then_requeue:
  "abind (net (set_failed_status E v msg)) (\<lambda>_. areturn q) w =
     (let t = patched E v (failed_status v msg) (trace w) in (answered E t q, w\<lparr>trace := t\<rparr>))"
  by (simp add: abind_def amatch_def afail_def areturn_def azoom_def set_status_eq answered_def Let_def split: option.split)

text \<open>Writing the Secret and then the ready status, each step only after the one before it succeeded.\<close>

lemma write_then_ready:
  assumes "vws_owner_ref v = Some owner"
  shows "abind (net (write_secret E v vals)) (\<lambda>_. abind (net (set_ready_status E v)) (\<lambda>_. areturn q)) w =
     (let h = trace w; stop = (\<lambda>r t. (r, w\<lparr>trace := t\<rparr>)) in
      case secret_exists E (h @ [secret_get v]) of
        Inl msg \<Rightarrow> stop (Err (KubeError msg)) (h @ [secret_get v])
      | Inr b \<Rightarrow>
          (let t = h @ [secret_get v, secret_write v owner vals b] in
           case kube_write E t of
             Some msg \<Rightarrow> stop (Err (KubeError msg)) t
           | None \<Rightarrow> (let t' = patched E v (ready_status v) t in stop (answered E t' q) t')))"
  by (simp add: abind_def amatch_def afail_def areturn_def azoom_def write_secret_eq [OF assms] set_status_eq
      answered_def Let_def split: option.split sum.split)

text \<open>A reconciliation, case by case; \<open>w1\<close> is the world after the fetch (or the world it began with, when
  it does not come that far).\<close>

definition fetch_done :: "'rsa env \<Rightarrow> client_config \<Rightarrow> world \<Rightarrow> world \<Rightarrow> bool" where
  "fetch_done E c w w1 \<longleftrightarrow> w1 = w \<or> (\<exists>reqs. w1 = snd (fetch_secrets E c reqs w))"

lemma reconcile_cases:
  obtains (failed) msg w1 where "sync_attempt E c v w = Err msg" "fetch_done E c w w1"
      "reconcile_apply E c v w =
         abind (net (set_failed_status E v msg)) (\<lambda>_. areturn (Requeue (requeue_interval E v))) w1"
  | (panicked) w1 where "sync_attempt E c v w = Panic" "fetch_done E c w w1" "reconcile_apply E c v w = (Panic, w1)"
  | (fetched) reqs vals w1 where "sync_attempt E c v w = Ok vals" "fetch_done E c w w1"
      "build_requests E (vws_spec_of v) = Ok reqs" "fetch_secrets E c reqs w = (Ok vals, w1)"
      "reconcile_apply E c v w = abind (net (write_secret E v vals)) (\<lambda>_. abind (net (set_ready_status E v))
         (\<lambda>_. areturn (Requeue (requeue_interval E v)))) w1"
proof (cases "parse_sync_interval E (sync_interval (vws_spec_of v))")
  case (Ok interval)
  note defs = sync_attempt_def reconcile_apply_def requeue_interval_def fetch_done_def Ok
  show thesis
  proof (cases "build_requests E (vws_spec_of v)")
    fix reqs
    assume reqs: "build_requests E (vws_spec_of v) = Ok reqs"
    obtain r w1 where f: "fetch_secrets E c reqs w = (r, w1)" by (cases "fetch_secrets E c reqs w")
    have fd: "fetch_done E c w w1" unfolding fetch_done_def using f by (metis snd_conv)
    show thesis
    proof (cases r)
      case r: (Ok vals)
      show thesis
        by (rule fetched [of vals w1 reqs]) (use fd in \<open>simp_all add: defs reqs f r outcome_simps\<close>)
    next
      case r: (Err e)
      show thesis
        by (rule failed [of "''failed to fetch Vaultwarden secrets: '' @ show_vault_error (debug_str E) e" w1])
          (use fd in \<open>simp_all add: defs reqs f r outcome_simps\<close>)
    next
      case r: Panic
      show thesis
        by (rule panicked [of w1]) (use fd in \<open>simp_all add: defs reqs f r outcome_simps\<close>)
    qed
  next
    fix msg
    assume "build_requests E (vws_spec_of v) = Err msg"
    then show thesis by (intro failed [of msg w]) (simp_all add: defs)
  next
    assume "build_requests E (vws_spec_of v) = Panic"
    then show thesis by (intro panicked [of w]) (simp_all add: defs)
  qed
next
  case (Err msg)
  then show thesis
    by (intro failed [of msg w]) (simp_all add: sync_attempt_def reconcile_apply_def requeue_interval_def fetch_done_def)
next
  case Panic
  then show thesis
    by (intro panicked [of w]) (simp_all add: sync_attempt_def reconcile_apply_def fetch_done_def)
qed

lemma fetch_done_quiet: "fetch_done E c w w1 \<Longrightarrow> \<exists>n. trace w1 = trace w @ n \<and> quiet n"
  using addsD [OF fetch_secrets_quiet, of E c _ w] by (auto simp: fetch_done_def)

text \<open>The whole history of a reconciliation: \<open>h\<close> is the history after the fetch.\<close>

definition reconcile_history :: "'rsa env \<Rightarrow> vws \<Rightarrow> (string, string list) outcome \<Rightarrow> history \<Rightarrow> history" where
  "reconcile_history E v attempt h =
     (case (attempt, vws_owner_ref v) of
        (Err msg, _) \<Rightarrow> patched E v (failed_status v msg) h
      | (Ok vals, Some owner) \<Rightarrow>
          (case secret_exists E (h @ [secret_get v]) of
             Inl msg \<Rightarrow> h @ [secret_get v]
           | Inr b \<Rightarrow>
               (let t = h @ [secret_get v, secret_write v owner vals b]
                in if kube_write E t = None then patched E v (ready_status v) t else t))
      | _ \<Rightarrow> h)"

lemma reconcile_trace:
  "\<exists>w1. fetch_done E c w w1
     \<and> snd (reconcile_apply E c v w) = w1\<lparr>trace := reconcile_history E v (sync_attempt E c v w) (trace w1)\<rparr>
     \<and> (\<forall>vals. sync_attempt E c v w = Ok vals \<longrightarrow>
          (\<exists>reqs. build_requests E (vws_spec_of v) = Ok reqs \<and> fetch_secrets E c reqs w = (Ok vals, w1)))"
proof (cases rule: reconcile_cases [where E = E and c = c and v = v and w = w])
  case (failed msg w1)
  then show ?thesis by (intro exI [of _ w1]) (simp add: fail_then_requeue Let_def reconcile_history_def)
next
  case (panicked w1)
  then show ?thesis by (intro exI [of _ w1]) (simp add: reconcile_history_def)
next
  case (fetched reqs vals w1)
  show ?thesis
  proof (cases "vws_owner_ref v")
    case None
    then show ?thesis
      using fetched by (intro exI [of _ w1])
        (simp add: reconcile_history_def write_secret_def abind_def amatch_def azoom_def alift_def)
  next
    case (Some owner)
    then show ?thesis
      using fetched by (intro exI [of _ w1])
        (simp add: reconcile_history_def write_then_ready [OF Some] Let_def split: sum.split option.split)
  qed
qed

lemma build_request_Ok:
  "build_request E dv (i, item) = Ok req \<longleftrightarrow>
     resolved_secret_name item = Some (req_name req)
     \<and> req_vault req = or_else (non_empty (di_vault item)) dv"
  by (cases req) (auto simp: build_request_def outcome_iffs)

lemma build_request_Err:
  "build_request E dv (i, item) = Err msg \<longleftrightarrow>
     resolved_secret_name item = None \<and> msg = missing_name_error E i item"
  by (auto simp: build_request_def outcome_iffs)

lemma nth_enumerate0: "i < length xs \<Longrightarrow> List.enumerate 0 xs ! i = (i, xs ! i)"
  by (simp add: nth_enumerate_eq)

lemma build_requests_Ok:
  "build_requests E spec = Ok reqs \<longleftrightarrow>
     list_all2 (\<lambda>item req. resolved_secret_name item = Some (req_name req)
       \<and> req_vault req = or_else (non_empty (di_vault item)) (non_empty (default_vault spec)))
     (spec_data spec) reqs"
  by (auto simp: build_requests_def Let_def collect.run_Ok_iff list_all2_conv_all_nth nth_enumerate0
      build_request_Ok)

lemma build_requests_Err:
  "build_requests E spec = Err msg \<longleftrightarrow>
     (\<exists>i < length (spec_data spec). resolved_secret_name (spec_data spec ! i) = None
        \<and> msg = missing_name_error E i (spec_data spec ! i)
        \<and> (\<forall>j < i. resolved_secret_name (spec_data spec ! j) \<noteq> None))"
proof -
  have ok: "(\<exists>y. build_request E dv (j, item) = Ok y) \<longleftrightarrow> resolved_secret_name item \<noteq> None" for dv j item
    by (auto simp: build_request_def outcome_iffs)
  show ?thesis
    by (auto simp: build_requests_def Let_def collect.run_Err_iff nth_enumerate0 build_request_Err ok
        cong: conj_cong)
qed

lemma build_requests_no_Panic: "build_requests E spec \<noteq> Panic"
  unfolding build_requests_def Let_def
  by (rule collect.run_no_Panic) (auto simp: build_request_def outcome_iffs)

lemma secret_data_snoc:
  "length its = length vs \<Longrightarrow>
     secret_data (its @ [it]) (vs @ [x]) = (secret_data its vs)(di_key it \<mapsto> JStr x)"
  by (simp add: secret_data_def)

text \<open>The last entry of a key determines its value in the Secret, and the Secret has no other keys.\<close>

lemma secret_data_other: "k \<notin> di_key ` set its \<Longrightarrow>
    foldl (\<lambda>m (item, value). m(di_key item \<mapsto> JStr value)) m (zip its vals) k = m k"
proof (induction its arbitrary: m vals)
  case (Cons it its)
  then show ?case by (cases vals) simp_all
qed simp

lemma secret_data_last:
  assumes "length (us @ it # its) = length vals" and "di_key it \<notin> di_key ` set its"
  shows "secret_data (us @ it # its) vals (di_key it) = Some (JStr (vals ! length us))"
proof -
  have "vals = take (length us) vals @ vals ! length us # drop (Suc (length us)) vals"
    using assms(1) by (intro id_take_nth_drop) simp
  moreover have "length us = length (take (length us) vals)" using assms(1) by simp
  ultimately have "zip (us @ it # its) vals = zip us (take (length us) vals)
      @ (it, vals ! length us) # zip its (drop (Suc (length us)) vals)"
    by (metis zip_append zip_Cons_Cons)
  then show ?thesis using secret_data_other [OF assms(2)] by (simp add: secret_data_def)
qed

lemma secret_data_dom:
  "length its = length vals \<Longrightarrow> dom (secret_data its vals) = di_key ` set its"
proof (induction its vals rule: rev_induct2 [case_names Nil left right snoc])
  case (snoc it its x vs)
  then have len: "length its = length vs" and "dom (secret_data its vs) = di_key ` set its" by simp_all
  then have "dom ((secret_data its vs)(di_key it \<mapsto> JStr x)) = insert (di_key it) (di_key ` set its)"
    by (simp only: dom_fun_upd) simp
  then show ?case by (simp only: secret_data_snoc [OF len] set_append image_Un) simp
qed (simp_all add: secret_data_def)

text \<open>What a Secret event writes: its \<open>stringData\<close>.\<close>

fun secret_body_of :: "event \<Rightarrow> json option" where
  "secret_body_of (SecretCreate ns b) = Some b"
| "secret_body_of (SecretApply ns n b) = Some b"
| "secret_body_of _ = None"

definition string_data :: "json \<Rightarrow> string \<rightharpoonup> json" where
  "string_data body = member_of (member_of (Some body) ''stringData'')"

lemma string_data_body [simp]: "string_data (secret_body v owner m) = m"
  by (simp add: string_data_def secret_body_def member_of_def)

lemma quiet_no_body: "quiet n \<Longrightarrow> e \<in> set n \<Longrightarrow> secret_body_of e = None"
  by (cases e) (auto simp: quiet_def list_all_iff)

text \<open>A Secret event of a reconciliation carries the values it fetched.\<close>

lemma reconcile_secret_event:
  assumes "trace (snd (reconcile_apply E c v w)) = trace w @ new" and "wr \<in> set new" and "secret_body_of wr = Some body"
  obtains vals owner reqs w1 where "build_requests E (vws_spec_of v) = Ok reqs" "fetch_secrets E c reqs w = (Ok vals, w1)"
    "session (snd (reconcile_apply E c v w)) = session w1"
    "body = secret_body v owner (secret_data (spec_data (vws_spec_of v)) vals)"
proof -
  obtain w1 where w1: "fetch_done E c w w1"
    "snd (reconcile_apply E c v w) = w1\<lparr>trace := reconcile_history E v (sync_attempt E c v w) (trace w1)\<rparr>"
    "\<And>vals. sync_attempt E c v w = Ok vals \<Longrightarrow>
       \<exists>reqs. build_requests E (vws_spec_of v) = Ok reqs \<and> fetch_secrets E c reqs w = (Ok vals, w1)"
    using reconcile_trace [of E c w v] by blast
  obtain n where n: "trace w1 = trace w @ n" "quiet n" using fetch_done_quiet [OF w1(1)] by blast
  have new: "trace w @ new = reconcile_history E v (sync_attempt E c v w) (trace w @ n)"
    using assms(1) by (simp add: w1(2) n(1))
  note defs = reconcile_history_def patched_def status_event_def secret_get_def secret_write_def Let_def
  show thesis
  proof (cases "sync_attempt E c v w")
    case (Ok vals)
    then obtain reqs where "build_requests E (vws_spec_of v) = Ok reqs" "fetch_secrets E c reqs w = (Ok vals, w1)"
      using w1(3) by blast
    moreover have "\<exists>owner. body = secret_body v owner (secret_data (spec_data (vws_spec_of v)) vals)"
      using new assms(2,3) quiet_no_body [OF n(2)]
      by (auto simp: defs Ok split: option.splits sum.splits if_splits)
    ultimately show ?thesis using that w1(2) by auto
  next
    case (Err msg)
    then show ?thesis using new assms(2,3) quiet_no_body [OF n(2)] by (auto simp: defs)
  next
    case Panic
    then show ?thesis using new assms(2,3) quiet_no_body [OF n(2)] by (auto simp: defs)
  qed
qed

section \<open>A concrete reconciliation\<close>

lemma toy_requests:
  "build_requests toy_env (vws_spec_of toy_vws) = Ok [\<lparr>req_name = ''db'', req_vault = None\<rparr>]"
  by (simp add: build_requests_Ok toy_vws_def resolved_secret_name_def non_empty_def)

lemma toy_fetch:
  "fetch_secrets toy_env toy_config [\<lparr>req_name = ''db'', req_vault = None\<rparr>] toy_world
     = (Ok [''personal''], toy_world)"
proof -
  have low: "to_lowercase toy_ucd ''db'' = ''db''"
    by (simp add: to_lowercase_ascii is_ascii_def ascii_lower_def)
  have look: "lookup_item toy_ucd toy_cache ''db'' None = Ok (demo_item ''c1'' None ''db'' ''personal'')"
    by (simp add: lookup_item_def toy_cache_def find_item_def in_scope_def demo_item_def low)
  then show ?thesis
    by (simp add: fetch_secrets_def try_fetch_secrets_def toy_world_def toy_session_def
        lookup_secret_def toy_env_def) (simp add: extract_secret_def demo_item_def)
qed

lemma toy_attempt: "sync_attempt toy_env toy_config toy_vws toy_world = Ok [''personal'']"
proof -
  have dur: "parse_duration False ''5m'' = Ok 300"
    by (simp add: parse_duration_def parse_loop.simps strip_unit_def str_eval mul_checked_def saturating_add_def)
  then have "parse_sync_interval toy_env ''5m'' = Ok 300"
    by (simp add: parse_sync_interval_def toy_env_def)
  moreover have "sync_interval (vws_spec_of toy_vws) = ''5m''" by (simp add: toy_vws_def)
  ultimately show ?thesis by (simp add: sync_attempt_def toy_requests toy_fetch)
qed

lemma toy_writes: "\<exists>body. SecretCreate ''prod'' body \<in> set (trace (snd (reconcile_apply toy_env toy_config toy_vws toy_world)))"
proof -
  obtain w1 where w1: "fetch_done toy_env toy_config toy_world w1"
    "snd (reconcile_apply toy_env toy_config toy_vws toy_world) =
       w1\<lparr>trace := reconcile_history toy_env toy_vws (sync_attempt toy_env toy_config toy_vws toy_world) (trace w1)\<rparr>"
    using reconcile_trace [of toy_env toy_config toy_world toy_vws] by blast
  obtain owner where owner: "vws_owner_ref toy_vws = Some owner" by (simp add: toy_vws_def)
  have answers: "secret_exists toy_env h = Inr False" "kube_write toy_env h = None" for h
    by (simp_all add: toy_env_def server_env_def)
  have "namespace_of toy_vws = ''prod''" by (simp add: toy_vws_def namespace_of_def)
  then show ?thesis
    by (simp add: w1(2) toy_attempt reconcile_history_def owner answers secret_write_def Let_def patched_def) blast
qed

lemma toy_patches:
  "\<exists>p. StatusPatch ''prod'' ''app'' p \<in> set (trace (snd (reconcile_apply toy_env toy_config toy_vws toy_world)))"
proof -
  obtain w1 where w1: "snd (reconcile_apply toy_env toy_config toy_vws toy_world) =
       w1\<lparr>trace := reconcile_history toy_env toy_vws (sync_attempt toy_env toy_config toy_vws toy_world) (trace w1)\<rparr>"
    using reconcile_trace [of toy_env toy_config toy_world toy_vws] by blast
  obtain owner where owner: "vws_owner_ref toy_vws = Some owner" by (simp add: toy_vws_def)
  have answers: "secret_exists toy_env h = Inr False" "kube_write toy_env h = None" for h
    by (simp_all add: toy_env_def server_env_def)
  have "namespace_of toy_vws = ''prod''" "vws_name toy_vws = ''app''" by (simp_all add: toy_vws_def namespace_of_def)
  then show ?thesis
    by (simp add: w1 toy_attempt reconcile_history_def owner answers Let_def patched_def status_event_def) blast
qed

section \<open>Properties\<close>

text \<open>C1. All or nothing, and in order. Before the first Kubernetes call nothing is written. When the
  validation or the fetch fails, the one call is the status patch with the failure's message, and the
  Secret is not touched. When all values are there, the Secret is read; when that is refused, this is
  the last call; otherwise the Secret is written exactly once with those values, by a create when it
  was absent and an apply when it was there; when the write is refused, it is the last call, and the
  error is returned; only when it was accepted the status is patched to ready. A refused status
  patch is returned as an error, too.\<close>

theorem reconcile_kube_calls:
  "\<exists>h. prefix (trace w) h \<and> filter is_kube h = filter is_kube (trace w) \<and>
     (let r = fst (reconcile_apply E c v w); t = trace (snd (reconcile_apply E c v w)) in
      case sync_attempt E c v w of
        Panic \<Rightarrow> r = Panic \<and> t = h
      | Err msg \<Rightarrow>
          t = h @ [WallClockRead, StatusPatch (namespace_of v) (vws_name v)
                     (status_patch (failed_status v msg (utc_at E (h @ [WallClockRead]))))]
          \<and> (case kube_write E t of Some m \<Rightarrow> r = Err (KubeError m) | None \<Rightarrow> \<exists>q. r = Ok q)
      | Ok vals \<Rightarrow>
          (case vws_owner_ref v of
             None \<Rightarrow> r = Panic \<and> t = h
           | Some owner \<Rightarrow>
               (let get = SecretGet (namespace_of v) (vws_name v);
                    body = secret_body v owner (secret_data (spec_data (vws_spec_of v)) vals) in
                case secret_exists E (h @ [get]) of
                  Inl m \<Rightarrow> r = Err (KubeError m) \<and> t = h @ [get]
                | Inr there \<Rightarrow>
                    (let wr = (if there then SecretApply (namespace_of v) (vws_name v) body
                               else SecretCreate (namespace_of v) body) in
                     case kube_write E (h @ [get, wr]) of
                       Some m \<Rightarrow> r = Err (KubeError m) \<and> t = h @ [get, wr]
                     | None \<Rightarrow>
                         t = h @ [get, wr, WallClockRead, StatusPatch (namespace_of v) (vws_name v)
                               (status_patch (ready_status v (utc_at E (h @ [get, wr, WallClockRead]))))]
                         \<and> (case kube_write E t of Some m \<Rightarrow> r = Err (KubeError m) | None \<Rightarrow> \<exists>q. r = Ok q)))))"
proof -
  have quiet: "prefix (trace w) (trace w1) \<and> filter is_kube (trace w1) = filter is_kube (trace w)"
    if "fetch_done E c w w1" for w1
    using fetch_done_quiet [OF that] by (auto dest: quiet_kube)
  note defs = Let_def patched_def status_event_def answered_def secret_get_def secret_write_def
  show ?thesis
  proof (cases rule: reconcile_cases [where E = E and c = c and v = v and w = w])
    case (failed msg w1)
    with quiet [of w1] show ?thesis
      by (intro exI [of _ "trace w1"]) (simp add: fail_then_requeue defs split: option.split)
  next
    case (panicked w1)
    with quiet [of w1] show ?thesis by (intro exI [of _ "trace w1"]) simp
  next
    case (fetched reqs vals w1)
    show ?thesis
    proof (cases "vws_owner_ref v")
      case None
      then show ?thesis
        using fetched quiet [of w1] by (intro exI [of _ "trace w1"])
          (simp add: write_secret_def abind_def amatch_def azoom_def alift_def)
    next
      case (Some owner)
      then show ?thesis
        using fetched quiet [of w1] by (intro exI [of _ "trace w1"])
          (simp add: write_then_ready [OF Some] defs split: sum.split option.split)
    qed
  qed
qed

text \<open>C28. Spec validation accepts exactly the specs in which every entry has a name, and then gives
  one request per entry in order: \<open>secretName\<close> before the deprecated \<open>vaultwardenSecret\<close>, the
  entry's vault before the default one, empty strings counting as unset; otherwise it names the
  first entry without a name.\<close>

theorem build_requests_spec:
  "(build_requests E spec = Ok reqs \<longleftrightarrow>
     list_all2 (\<lambda>item req.
         Some (req_name req) = or_else (non_empty (di_secret_name item)) (non_empty (di_vaultwarden_secret item))
         \<and> req_vault req = or_else (non_empty (di_vault item)) (non_empty (default_vault spec)))
       (spec_data spec) reqs)
   \<and> (build_requests E spec = Err msg \<longleftrightarrow>
     (\<exists>us item vs. spec_data spec = us @ item # vs \<and> resolved_secret_name item = None
        \<and> list_all (\<lambda>u. resolved_secret_name u \<noteq> None) us \<and> msg = missing_name_error E (length us) item))
   \<and> build_requests E spec \<noteq> Panic"
proof -
  have "(\<exists>us item vs. spec_data spec = us @ item # vs \<and> resolved_secret_name item = None
        \<and> list_all (\<lambda>u. resolved_secret_name u \<noteq> None) us \<and> msg = missing_name_error E (length us) item)
    \<longleftrightarrow> (\<exists>i < length (spec_data spec). resolved_secret_name (spec_data spec ! i) = None
        \<and> msg = missing_name_error E i (spec_data spec ! i)
        \<and> (\<forall>j < i. resolved_secret_name (spec_data spec ! j) \<noteq> None))" (is "?L \<longleftrightarrow> ?R")
  proof
    assume ?L
    then obtain us item vs where "spec_data spec = us @ item # vs" "resolved_secret_name item = None"
      "list_all (\<lambda>u. resolved_secret_name u \<noteq> None) us" "msg = missing_name_error E (length us) item" by blast
    then show ?R by (intro exI [of _ "length us"]) (auto simp: nth_append list_all_length)
  next
    assume ?R
    then obtain i where i: "i < length (spec_data spec)" "resolved_secret_name (spec_data spec ! i) = None"
      "msg = missing_name_error E i (spec_data spec ! i)"
      "\<forall>j < i. resolved_secret_name (spec_data spec ! j) \<noteq> None" by blast
    then show ?L
      by (intro exI [of _ "take i (spec_data spec)"] exI [of _ "spec_data spec ! i"]
          exI [of _ "drop (Suc i) (spec_data spec)"])
        (auto simp: id_take_nth_drop [symmetric] list_all_length min_def)
  qed
  with build_requests_Err [of E spec msg]
  have err: "build_requests E spec = Err msg \<longleftrightarrow> ?L" by (simp only:)
  have eq: "(\<lambda>item req. Some (req_name req) =
        or_else (non_empty (di_secret_name item)) (non_empty (di_vaultwarden_secret item))
      \<and> req_vault req = or_else (non_empty (di_vault item)) (non_empty (default_vault spec)))
    = (\<lambda>item req. resolved_secret_name item = Some (req_name req)
      \<and> req_vault req = or_else (non_empty (di_vault item)) (non_empty (default_vault spec)))"
    by (intro ext) (auto simp: resolved_secret_name_def)
  show ?thesis
    by (intro conjI, simp only: eq build_requests_Ok, rule err, rule build_requests_no_Panic)
qed

text \<open>C18. What a Secret gets: whenever a reconciliation creates or applies a Secret, the values it writes
  come from one snapshot, the one the session holds then: under the key of each entry of the spec
  the Secret carries the secret of the item this entry denotes (of the last entry, when a key is
  repeated), and it has no other keys.\<close>

theorem reconcile_secret_contents:
  assumes "trace (snd (reconcile_apply E c v w)) = trace w @ new"
    and "wr = SecretCreate ns body \<or> wr = SecretApply ns name body" and "wr \<in> set new"
    and "spec_data (vws_spec_of v) = us @ item # its" and "di_key item \<notin> di_key ` set its"
  shows "\<exists>cache n x. vault (session (snd (reconcile_apply E c v w))) = Some cache
    \<and> resolved_secret_name item = Some n
    \<and> lookup_item (ucd_of E) cache n
         (or_else (non_empty (di_vault item)) (non_empty (default_vault (vws_spec_of v)))) = Ok x
    \<and> string_data body (di_key item) = Some (JStr (extract_secret x))
    \<and> dom (string_data body) = di_key ` set (spec_data (vws_spec_of v))"
proof -
  let ?spec = "vws_spec_of v"
  have "secret_body_of wr = Some body" using assms(2) by (elim disjE) simp_all
  then obtain vals owner reqs w1 where
    reqs: "build_requests E ?spec = Ok reqs" and f: "fetch_secrets E c reqs w = (Ok vals, w1)"
    and sess: "session (snd (reconcile_apply E c v w)) = session w1"
    and body: "body = secret_body v owner (secret_data (spec_data ?spec) vals)"
    by (rule reconcile_secret_event [OF assms(1,3)])
  from f have "try_fetch_secrets E (session w1) reqs = Ok vals" by (rule vault_client.fetch_Ok_attempt)
  then obtain cache where cache: "vault (session w1) = Some cache"
    "list_all2 (\<lambda>req x. lookup_secret E cache req = Ok x) reqs vals" by (auto simp: try_fetch_Ok)
  let ?i = "length us"
  have i: "?i < length (spec_data ?spec)" "spec_data ?spec ! ?i = item" using assms(4) by simp_all
  have len: "length (spec_data ?spec) = length reqs" "length reqs = length vals"
    using reqs cache(2) by (auto simp: build_requests_Ok dest: list_all2_lengthD)
  have req: "resolved_secret_name item = Some (req_name (reqs ! ?i))"
    "req_vault (reqs ! ?i) = or_else (non_empty (di_vault item)) (non_empty (default_vault ?spec))"
    using reqs i list_all2_nthD by (fastforce simp: build_requests_Ok)+
  have "lookup_secret E cache (reqs ! ?i) = Ok (vals ! ?i)"
    using cache(2) i(1) len by (auto dest: list_all2_nthD)
  then obtain x where x: "lookup_item (ucd_of E) cache (req_name (reqs ! ?i)) (req_vault (reqs ! ?i)) = Ok x"
    "vals ! ?i = extract_secret x" by (auto simp: lookup_secret_Ok)
  have "string_data body (di_key item) = Some (JStr (vals ! ?i))"
    using secret_data_last [of us item its vals] assms(4,5) len by (simp add: body)
  moreover have "dom (string_data body) = di_key ` set (spec_data ?spec)"
    using secret_data_dom [of "spec_data ?spec" vals] len by (simp add: body)
  ultimately show ?thesis using cache(1) sess req x by auto
qed

theorem reconcile_secret_contents_witness:
  "\<exists>new body x. trace (snd (reconcile_apply toy_env toy_config toy_vws toy_world)) = new
    \<and> SecretCreate ''prod'' body \<in> set new \<and> lookup_item toy_ucd toy_cache ''db'' None = Ok x
    \<and> string_data body ''pw'' = Some (JStr (extract_secret x)) \<and> dom (string_data body) = {''pw''}"
proof -
  let ?new = "trace (snd (reconcile_apply toy_env toy_config toy_vws toy_world))"
  let ?item = "\<lparr>di_key = ''pw'', di_secret_name = Some ''db'', di_vaultwarden_secret = None, di_vault = None\<rparr>"
  have new: "?new = trace toy_world @ ?new" by (simp add: toy_world_def)
  obtain body where body: "SecretCreate ''prod'' body \<in> set ?new" using toy_writes by blast
  have spec: "spec_data (vws_spec_of toy_vws) = [] @ ?item # []" "default_vault (vws_spec_of toy_vws) = None"
    by (simp_all add: toy_vws_def)
  have vault: "vault (session (snd (reconcile_apply toy_env toy_config toy_vws toy_world))) = Some toy_cache"
  proof -
    obtain w1 where w1: "snd (reconcile_apply toy_env toy_config toy_vws toy_world) =
        w1\<lparr>trace := reconcile_history toy_env toy_vws (sync_attempt toy_env toy_config toy_vws toy_world) (trace w1)\<rparr>"
      "\<exists>reqs. build_requests toy_env (vws_spec_of toy_vws) = Ok reqs
         \<and> fetch_secrets toy_env toy_config reqs toy_world = (Ok [''personal''], w1)"
      using reconcile_trace [of toy_env toy_config toy_world toy_vws] toy_attempt by blast
    from w1(2) have "w1 = toy_world" unfolding toy_requests using toy_fetch by auto
    with w1(1) show ?thesis by (simp only:) (simp add: toy_world_def toy_session_def)
  qed
  have "ucd_of toy_env = toy_ucd" by (simp add: toy_env_def)
  moreover have "resolved_secret_name ?item = Some ''db''" by (simp add: resolved_secret_name_def non_empty_def)
  moreover have "or_else (non_empty (di_vault ?item)) (non_empty None) = None" by (simp add: non_empty_def)
  moreover have "di_key ?item \<notin> di_key ` set []" by simp
  note reconcile_secret_contents [OF new disjI1 [OF refl] body spec(1) this]
  ultimately obtain x where "lookup_item toy_ucd toy_cache ''db'' None = Ok x"
    "string_data body ''pw'' = Some (JStr (extract_secret x))" "dom (string_data body) = {''pw''}"
    unfolding vault spec by (fastforce simp del: lookup_item_def)
  with body show ?thesis by blast
qed

text \<open>C30. The answer to the work queue: a reconciliation that succeeds is requeued after the resource's own
  interval, the default one when that is invalid, never after zero; the cleanup of a deleted resource
  does nothing and waits for a change. A reconciliation fails only because the last Kubernetes call
  was refused, with its message, and then the error policy requeues it, too. It panics only when
  validation or fetch does, or when the resource has no owner reference.\<close>

theorem reconcile_requeues:
  "case fst (reconcile_event E c e w) of
     Ok a \<Rightarrow>
       (case e of
          FinalizerCleanup v \<Rightarrow> a = AwaitChange \<and> snd (reconcile_event E c e w) = w
        | FinalizerApply v \<Rightarrow> \<exists>d > 0. a = Requeue d
            \<and> (case parse_sync_interval E (sync_interval (vws_spec_of v)) of
                 Ok interval \<Rightarrow> d = interval | Err msg \<Rightarrow> d = DEFAULT_SYNC_INTERVAL | Panic \<Rightarrow> False))
   | Err err \<Rightarrow>
       (\<exists>msg t. err = KubeError msg \<and> t = trace (snd (reconcile_event E c e w))
          \<and> (kube_write E t = Some msg \<or> secret_exists E t = Inl msg))
       \<and> error_policy err = Requeue DEFAULT_SYNC_INTERVAL \<and> 0 < DEFAULT_SYNC_INTERVAL
   | Panic \<Rightarrow> \<exists>v. e = FinalizerApply v \<and> (sync_attempt E c v w = Panic \<or> vws_owner_ref v = None)"
proof (cases e)
  case (FinalizerCleanup v)
  then show ?thesis by (simp add: reconcile_event_def areturn_def)
next
  case (FinalizerApply v)
  have d: "0 < DEFAULT_SYNC_INTERVAL" by (simp add: DEFAULT_SYNC_INTERVAL_def word_gt_0)
  have interval: "(case parse_sync_interval E (sync_interval (vws_spec_of v)) of
      Ok i \<Rightarrow> requeue_interval E v = i | Err msg \<Rightarrow> requeue_interval E v = DEFAULT_SYNC_INTERVAL | Panic \<Rightarrow> False)"
    if "sync_attempt E c v w \<noteq> Panic"
    using that by (auto simp: requeue_interval_def sync_attempt_def split: outcome.split)
  note pos = requeue_interval_positive [of E v]
  show ?thesis
  proof (cases rule: reconcile_cases [where E = E and c = c and v = v and w = w])
    case (failed msg w1)
    then have "sync_attempt E c v w \<noteq> Panic" by simp
    note i = interval [OF this]
    from failed(3) pos d i show ?thesis
      unfolding FinalizerApply reconcile_event_def finalizer_event.case fail_then_requeue Let_def answered_def
      by (cases "kube_write E (patched E v (failed_status v msg) (trace w1))") (simp_all add: error_policy_def)
  next
    case (panicked w1)
    then show ?thesis by (simp add: FinalizerApply reconcile_event_def)
  next
    case (fetched reqs vals w1)
    show ?thesis
    proof (cases "vws_owner_ref v")
      case None
      then show ?thesis
        using fetched by (simp add: FinalizerApply reconcile_event_def write_secret_def abind_def amatch_def azoom_def alift_def)
    next
      case (Some owner)
      have "sync_attempt E c v w \<noteq> Panic" using fetched(1) by simp
      note i = interval [OF this]
      from fetched(5) pos d i show ?thesis
        unfolding FinalizerApply reconcile_event_def finalizer_event.case write_then_ready [OF Some] Let_def answered_def
        by (simp add: error_policy_def split: option.split sum.split)
    qed
  qed
qed

text \<open>Every status patch a reconciliation sends is the patch of a status.\<close>

lemma quiet_no_patch: "quiet n \<Longrightarrow> StatusPatch ns k p \<notin> set n"
  by (auto simp: quiet_def list_all_iff)

lemma reconcile_status_event:
  assumes "trace (snd (reconcile_apply E c v w)) = trace w @ new" and "StatusPatch ns n p \<in> set new"
  shows "ns = namespace_of v \<and> n = vws_name v \<and> (\<exists>s. p = status_patch s)"
proof -
  obtain w1 where w1: "fetch_done E c w w1"
    "snd (reconcile_apply E c v w) = w1\<lparr>trace := reconcile_history E v (sync_attempt E c v w) (trace w1)\<rparr>"
    using reconcile_trace [of E c w v] by blast
  obtain m where m: "trace w1 = trace w @ m" "quiet m" using fetch_done_quiet [OF w1(1)] by blast
  have new: "trace w @ new = reconcile_history E v (sync_attempt E c v w) (trace w @ m)"
    using assms(1) by (simp add: w1(2) m(1))
  note defs = reconcile_history_def patched_def status_event_def secret_get_def secret_write_def Let_def
  show ?thesis
    using new assms(2) quiet_no_patch [OF m(2)]
    by (auto simp: defs split: outcome.splits option.splits sum.splits if_splits)
qed

text \<open>C26. The controller keeps the schema of its own resource: a status patch it sends, merged into an
  object whose status is absent or of the schema of the custom resource, leaves the status an object
  of the schema (declared members only, with their types, each condition with all its required
  members, and no null) and touches nothing outside the status. It is sent for the resource that
  is reconciled.\<close>

theorem status_writes_keep_schema:
  assumes "merge_laws merge" and "case m ''status'' of None \<Rightarrow> True | Some st \<Rightarrow> status_schema st"
    and "trace (snd (reconcile_event E c e w)) = trace w @ new" and "StatusPatch ns n p \<in> set new"
  shows "\<exists>v obj st. e = FinalizerApply v \<and> ns = namespace_of v \<and> n = vws_name v
    \<and> merge (Some (JObj m)) p = JObj obj \<and> obj ''status'' = Some st \<and> status_schema st
    \<and> (\<forall>k. k \<noteq> ''status'' \<longrightarrow> obj k = m k)"
proof (cases e)
  case (FinalizerCleanup v)
  then show ?thesis using assms(3,4) by (simp add: reconcile_event_def areturn_def)
next
  case (FinalizerApply v)
  then have "trace (snd (reconcile_apply E c v w)) = trace w @ new" using assms(3) by (simp add: reconcile_event_def)
  from reconcile_status_event [OF this assms(4)] obtain s where s: "ns = namespace_of v" "n = vws_name v" "p = status_patch s"
    by blast
  with status_patch_keeps_schema [where m = m, OF assms(1,2), of s] show ?thesis unfolding FinalizerApply s(3) by blast
qed

theorem status_writes_keep_schema_witness:
  "\<exists>p obj st. StatusPatch ''prod'' ''app'' p \<in> set (trace (snd (reconcile_event toy_env toy_config (FinalizerApply toy_vws) toy_world)))
     \<and> rfc_merge p (Some (jobj [(''spec'', JNull), (''status'', status_json (the (vws_status_of toy_vws)))])) = JObj obj
     \<and> obj ''status'' = Some st \<and> status_schema st \<and> obj ''spec'' = Some JNull"
proof -
  let ?new = "trace (snd (reconcile_event toy_env toy_config (FinalizerApply toy_vws) toy_world))"
  let ?m = "map_of [(''spec'', JNull), (''status'', status_json (the (vws_status_of toy_vws)))]"
  obtain p where p: "StatusPatch ''prod'' ''app'' p \<in> set ?new" using toy_patches by (auto simp: reconcile_event_def)
  have "?new = trace toy_world @ ?new" by (simp add: toy_world_def)
  moreover have "case ?m ''status'' of None \<Rightarrow> True | Some st \<Rightarrow> status_schema st"
    using status_json_schema [of "the (vws_status_of toy_vws)"] by (simp del: status_schema.simps)
  ultimately obtain obj st where "rfc_merge p (Some (JObj ?m)) = JObj obj" "obj ''status'' = Some st" "status_schema st"
    "\<forall>k. k \<noteq> ''status'' \<longrightarrow> obj k = ?m k"
    using status_writes_keep_schema [where m = ?m and w = toy_world, OF rfc_merge_laws _ _ p] by blast
  with p show ?thesis by (intro exI [of _ p] exI [of _ obj] exI [of _ st]) (simp del: rfc_merge.simps status_schema.simps)
qed

end
