(* ===== verification/Secrecy.thy ===== *)
theory Secrecy
  imports Controller
begin

text \<open>
  Where the decrypted values flow. Two runs of the reconciler are compared: their snapshots have
  the same organizations and the same items by name and organization, and may differ in everything
  else an item holds (passwords, notes, custom fields, user names). The runs are the same but for
  the values in the Secrets they write: same requests, same status patches with the same messages,
  same result. \<open>agree\<close> relates two actions step by step, \<open>secure_rules\<close> collects its rules.
\<close>

section \<open>What an observer sees\<close>

text \<open>\<open>stringData\<close> of a Secret with its keys, without the values.\<close>

definition blank_values :: "json \<Rightarrow> json" where
  "blank_values j =
     (case j of
        JObj m \<Rightarrow> JObj (\<lambda>k. if k = ''stringData''
          then map_option (\<lambda>d. case d of JObj kv \<Rightarrow> JObj (map_option (\<lambda>_. JNull) \<circ> kv) | x \<Rightarrow> x) (m k)
          else m k)
      | x \<Rightarrow> x)"

fun erase_event :: "event \<Rightarrow> event" where
  "erase_event (SecretCreate ns b) = SecretCreate ns (blank_values b)"
| "erase_event (SecretApply ns n b) = SecretApply ns n (blank_values b)"
| "erase_event e = e"

definition erase :: "history \<Rightarrow> history" where
  "erase h = map erase_event h"

lemma erase_append [simp]: "erase (h @ h') = erase h @ erase h'"
  by (simp add: erase_def)

lemma erase_Cons [simp]: "erase (e # h) = erase_event e # erase h"
  by (simp add: erase_def)

lemma erase_Nil [simp]: "erase [] = []"
  by (simp add: erase_def)

text \<open>An outside that does not answer by the values in the Secrets.\<close>

definition blind :: "'rsa env \<Rightarrow> bool" where
  "blind E \<longleftrightarrow> (\<forall>h h'. erase h = erase h' \<longrightarrow>
     http_answer E h = http_answer E h' \<and> clock_at E h = clock_at E h' \<and> utc_at E h = utc_at E h'
     \<and> secret_exists E h = secret_exists E h' \<and> kube_write E h = kube_write E h')"

definition same_item :: "decrypted_item \<Rightarrow> decrypted_item \<Rightarrow> bool" where
  "same_item i j \<longleftrightarrow> item_name i = item_name j \<and> item_org i = item_org j"

definition same_shape :: "vault_cache \<Rightarrow> vault_cache \<Rightarrow> bool" where
  "same_shape c d \<longleftrightarrow> orgs_by_name c = orgs_by_name d \<and> list_all2 same_item (items c) (items d)"

text \<open>States that differ in the values of the snapshot and of the Secrets written only.\<close>

definition public_session :: "session \<Rightarrow> string \<times> string \<times> instant \<times> symmetric_key \<times> instant" where
  "public_session s = (access_token s, sess_refresh_token s, token_expires_at s, sym_key s, last_refresh_at s)"

definition same_public :: "world \<Rightarrow> world \<Rightarrow> bool" where
  "same_public w w' \<longleftrightarrow> erase (trace w) = erase (trace w')
     \<and> public_session (session w) = public_session (session w')
     \<and> rel_option same_shape (vault (session w)) (vault (session w'))"

abbreviation same_history :: "history \<Rightarrow> history \<Rightarrow> bool" where
  "same_history h h' \<equiv> erase h = erase h'"

section \<open>Two actions in step\<close>

named_theorems secure_rules "actions that agree on related states"

definition agree :: "('s \<Rightarrow> 's \<Rightarrow> bool) \<Rightarrow> ('a \<Rightarrow> 'a \<Rightarrow> bool) \<Rightarrow> ('s, 'e, 'a) action \<Rightarrow> ('s, 'e, 'a) action \<Rightarrow> bool"
  where
  "agree L P m m' \<longleftrightarrow>
     (\<forall>s s'. L s s' \<longrightarrow> rel_outcome (=) P (fst (m s)) (fst (m' s')) \<and> L (snd (m s)) (snd (m' s')))"

abbreviation secure :: "('s \<Rightarrow> 's \<Rightarrow> bool) \<Rightarrow> ('s, 'e, 'a) action \<Rightarrow> bool" where
  "secure L m \<equiv> agree L (=) m m"

lemma agree_simple [secure_rules]:
  "secure L (areturn a)" "secure L (afail e)" "secure L (alift r)"
  by (simp_all add: agree_def action_defs outcome.rel_eq)

lemma agree_alift: "rel_outcome (=) P r r' \<Longrightarrow> agree L P (alift r) (alift r')"
  by (simp add: agree_def alift_def)

lemma agree_aget [secure_rules]: "(\<And>s s'. L s s' \<Longrightarrow> f s = f s') \<Longrightarrow> secure L (aget f)"
  by (simp add: agree_def aget_def)

lemma agree_amodify [secure_rules]: "(\<And>s s'. L s s' \<Longrightarrow> L (f s) (f s')) \<Longrightarrow> secure L (amodify f)"
  by (simp add: agree_def amodify_def)

lemma agree_amatch:
  assumes m: "agree L Q m m'" and f: "\<And>x y. Q x y \<Longrightarrow> agree L P (f x) (f' y)"
    and g: "\<And>e. agree L P (g e) (g' e)"
  shows "agree L P (amatch m f g) (amatch m' f' g')"
  unfolding agree_def
proof (intro allI impI)
  fix s s' assume L: "L s s'"
  obtain r t where ms: "m s = (r, t)" by (cases "m s")
  obtain r' t' where ms': "m' s' = (r', t')" by (cases "m' s'")
  have "rel_outcome (=) Q r r'" "L t t'" using m L by (auto simp: agree_def ms ms' dest!: spec)
  then show "rel_outcome (=) P (fst (amatch m f g s)) (fst (amatch m' f' g' s'))
      \<and> L (snd (amatch m f g s)) (snd (amatch m' f' g' s'))"
    using f g by (cases r; cases r') (auto simp: amatch_def ms ms' agree_def)
qed

lemma secure_amatch [secure_rules]:
  "secure L m \<Longrightarrow> (\<And>x. secure L (f x)) \<Longrightarrow> (\<And>e. secure L (g e)) \<Longrightarrow> secure L (amatch m f g)"
  by (rule agree_amatch [where Q = "(=)"]) auto

lemma secure_abind [secure_rules]: "secure L m \<Longrightarrow> (\<And>x. secure L (f x)) \<Longrightarrow> secure L (abind m f)"
  unfolding abind_def by (intro secure_rules)

lemma secure_atry [secure_rules]: "secure L m \<Longrightarrow> (\<And>x. secure L (f x)) \<Longrightarrow> secure L (atry h m f)"
  unfolding atry_def by (intro secure_rules)

lemma secure_if [secure_rules]: "secure L m \<Longrightarrow> secure L m' \<Longrightarrow> secure L (if t then m else m')"
  by simp

lemma secure_case_prod [secure_rules]: "(\<And>x y. secure L (f x y)) \<Longrightarrow> secure L (case p of (x, y) \<Rightarrow> f x y)"
  by (simp split: prod.split)

lemma secure_net [secure_rules]: "secure same_history m \<Longrightarrow> secure same_public (net m)"
  by (simp add: agree_def azoom_def same_public_def split: prod.split) (metis fst_conv snd_conv)

lemma secure_prims [secure_rules]:
  assumes "blind E"
  shows "secure same_history (http_send E r)" "secure same_history (read_clock E)"
    "secure same_history (read_utc E)" "secure same_history (secret_get_opt E ns n)"
proof -
  have *: "http_answer E (h @ [e]) = http_answer E (h' @ [e])" "clock_at E (h @ [e]) = clock_at E (h' @ [e])"
    "utc_at E (h @ [e]) = utc_at E (h' @ [e])" "secret_exists E (h @ [e]) = secret_exists E (h' @ [e])"
    if "erase h = erase h'" for h h' e
    using assms that unfolding blind_def by (metis erase_append)+
  show "secure same_history (http_send E r)" "secure same_history (read_clock E)"
    "secure same_history (read_utc E)" "secure same_history (secret_get_opt E ns n)"
    by (auto simp: agree_def http_send_def read_clock_def read_utc_def secret_get_opt_def Let_def
        outcome.rel_eq intro: * arg_cong [where f = "map_err _"] arg_cong [where f = of_sum])
qed

lemma agree_kube_call:
  assumes "blind E" and "erase_event e = erase_event e'"
  shows "agree same_history (=) (kube_call E e) (kube_call E e')"
proof -
  have "kube_write E (h @ [e]) = kube_write E (h' @ [e'])" if "erase h = erase h'" for h h'
    using assms that unfolding blind_def by (metis erase_append erase_Cons)
  then show ?thesis using assms(2) by (auto simp: agree_def kube_call_def Let_def split: option.split)
qed

lemma secure_kube_call [secure_rules]: "blind E \<Longrightarrow> secure same_history (kube_call E e)"
  by (rule agree_kube_call) simp_all

section \<open>The client\<close>

lemma secure_send_json [secure_rules]: "blind E \<Longrightarrow> secure same_history (send_json E he se de req)"
  unfolding send_json_def by (intro secure_rules)

lemma secure_auth [secure_rules]:
  assumes "blind E"
  shows "secure same_history (authenticate E base_url email pw cid cs dev)"
    and "secure same_history (refresh_token E base_url rt)"
    and "secure same_history (fetch_sync E base_url tok)"
  unfolding authenticate_def prelogin_def log_in_send fetch_profile_key_def refresh_token_def
    fetch_sync_def Let_def
  by (intro secure_rules assms)+

lemma same_public_session:
  "same_public w w' \<Longrightarrow> access_token (session w) = access_token (session w')
    \<and> sess_refresh_token (session w) = sess_refresh_token (session w')
    \<and> token_expires_at (session w) = token_expires_at (session w')
    \<and> sym_key (session w) = sym_key (session w') \<and> last_refresh_at (session w) = last_refresh_at (session w')"
  by (simp add: same_public_def public_session_def)

lemma same_shape_refl [simp]: "same_shape c c"
  by (simp add: same_shape_def same_item_def list.rel_refl)

lemma secure_expiry_instant [secure_rules]: "blind E \<Longrightarrow> secure same_public (expiry_instant E x)"
  unfolding expiry_instant_def by (intro secure_rules)

lemma secure_re_authenticate [secure_rules]: "blind E \<Longrightarrow> secure same_public (re_authenticate E c)"
  unfolding re_authenticate_def by (intro secure_rules) (simp_all add: same_public_def public_session_def)

lemma secure_do_refresh [secure_rules]: "blind E \<Longrightarrow> secure same_public (do_refresh_or_reauth E c)"
  unfolding do_refresh_or_reauth_def
  by (intro secure_rules) (simp_all add: same_public_def public_session_def split: option.split)

lemma secure_ensure_valid_token [secure_rules]: "blind E \<Longrightarrow> secure same_public (ensure_valid_token E c)"
  unfolding ensure_valid_token_def by (intro secure_rules) (simp_all add: same_public_session)

lemma secure_fetch_sync_renewing [secure_rules]: "blind E \<Longrightarrow> secure same_public (fetch_sync_renewing E c tok)"
  unfolding fetch_sync_renewing_def by (intro secure_rules) (simp_all add: same_public_session)

lemma secure_store_snapshot [secure_rules]: "blind E \<Longrightarrow> secure same_public (store_snapshot E cache)"
  unfolding store_snapshot_def by (intro secure_rules) (simp_all add: same_public_def public_session_def)

lemma secure_refresh [secure_rules]: "blind E \<Longrightarrow> secure same_public (refresh_vault_cache E c)"
  unfolding refresh_vault_cache_def by (intro secure_rules) (simp_all add: same_public_session)

lemma secure_refresh_if_due [secure_rules]: "blind E \<Longrightarrow> secure same_public (refresh_if_due E c)"
  unfolding refresh_if_due_def by (intro secure_rules) (simp_all add: same_public_session)

section \<open>Looking up\<close>

lemma find_rel:
  assumes "list_all2 R xs ys" and "\<And>x y. R x y \<Longrightarrow> P x = P y"
  shows "rel_option R (find P xs) (find P ys)"
  using assms by (induction rule: list_all2_induct) auto

lemma find_item_rel:
  assumes "list_all2 same_item its its'"
  shows "rel_option same_item (find_item U its name oid) (find_item U its' name oid)"
proof -
  let ?P = "\<lambda>item. in_scope oid item \<and> to_lowercase U (item_name item) = to_lowercase U name"
  let ?Q = "\<lambda>item. in_scope oid item \<and> contains (to_lowercase U (item_name item)) (to_lowercase U name)"
  have "rel_option same_item (find ?P its) (find ?P its')" "rel_option same_item (find ?Q its) (find ?Q its')"
    by (rule find_rel [OF assms], simp add: same_item_def in_scope_def split: option.split)+
  then show ?thesis
    by (cases "find ?P its"; cases "find ?P its'") (simp_all add: find_item_def)
qed

lemma ok_or_rel: "rel_option R x y \<Longrightarrow> rel_outcome (=) R (ok_or e x) (ok_or e y)"
  by (cases x; cases y) (simp_all add: ok_or_def)

lemma lookup_item_rel:
  assumes "same_shape c d"
  shows "rel_outcome (=) same_item (lookup_item U c name v) (lookup_item U d name v)"
proof -
  have "length (items c) = length (items d)" "orgs_by_name c = orgs_by_name d"
    "list_all2 same_item (items c) (items d)"
    using assms by (auto simp: same_shape_def dest: list_all2_lengthD)
  then show ?thesis
    by (auto simp: lookup_item_def ok_or_def [of _ "orgs_by_name d x" for x] intro: ok_or_rel find_item_rel
        split: option.split list.split)
qed

lemma obind_rel:
  assumes "rel_outcome (=) R x y" and "\<And>a b. R a b \<Longrightarrow> rel_outcome (=) S (f a) (g b)"
  shows "rel_outcome (=) S (obind x f) (obind y g)"
  using assms by (cases x; cases y) simp_all

lemma collect_rel:
  assumes "\<And>r. rel_outcome (=) (\<lambda>_ _. True) (f r) (g r)"
  shows "rel_outcome (=) (\<lambda>xs ys. length xs = length ys) (collect f rs) (collect g rs)"
proof (induction rs)
  case Nil
  show ?case by simp
next
  case (Cons r rs)
  then show ?case
    using assms [of r] by (cases "f r"; cases "g r"; cases "collect f rs"; cases "collect g rs") simp_all
qed

lemma try_fetch_rel:
  assumes "rel_option same_shape (vault s) (vault s')"
  shows "rel_outcome (=) (\<lambda>xs ys. length xs = length ys) (try_fetch_secrets E s reqs) (try_fetch_secrets E s' reqs)"
proof (cases "vault s")
  case None
  with assms show ?thesis by (simp add: try_fetch_secrets_def ok_or_def)
next
  case (Some c)
  with assms obtain d where d: "vault s' = Some d" "same_shape c d" by (auto simp: option_rel_Some1)
  have "rel_outcome (=) (\<lambda>_ _. True) (lookup_secret E c r) (lookup_secret E d r)" for r
    unfolding lookup_secret_def by (rule obind_rel [OF lookup_item_rel [OF d(2)]]) simp
  from collect_rel [of "lookup_secret E c" "lookup_secret E d" reqs, OF this] show ?thesis
    by (cases "collect (lookup_secret E c) reqs"; cases "collect (lookup_secret E d) reqs")
      (simp_all add: try_fetch_secrets_def ok_or_def Some d(1))
qed

lemma agree_fetch_secrets:
  assumes "blind E"
  shows "agree same_public (\<lambda>xs ys. length xs = length ys) (fetch_secrets E c reqs) (fetch_secrets E c reqs)"
proof -
  let ?len = "\<lambda>xs ys :: string list. length xs = length ys"
  let ?attempt = "\<lambda>w. (try_fetch_secrets E (session w) reqs, w)"
  have t: "agree same_public ?len ?attempt ?attempt"
    using try_fetch_rel by (auto simp: agree_def same_public_def)
  have "agree same_public ?len (after_miss E c reqs e) (after_miss E c reqs e)" for e
    unfolding after_miss_def abind_def
    by (rule agree_amatch [OF secure_refresh_if_due [OF assms]])
      (auto simp: t, simp_all add: agree_def afail_def)
  then have a: "agree same_public ?len (\<lambda>w. if stale_miss e then after_miss E c reqs e w else (Err e, w))
      (\<lambda>w. if stale_miss e then after_miss E c reqs e w else (Err e, w))" for e
    by (cases "stale_miss e") (simp_all add: agree_def)
  have "fetch_secrets E c reqs = amatch ?attempt areturn
      (\<lambda>e w. if stale_miss e then after_miss E c reqs e w else (Err e, w))"
    by (rule ext) (simp add: fetch_secrets_def amatch_def areturn_def split: outcome.split)
  then show ?thesis
    by (simp, intro agree_amatch [OF t]) (simp_all add: a, simp add: agree_def areturn_def)
qed

section \<open>Writing the Secret\<close>

lemma secret_data_blank:
  assumes "length vals = length vals'"
  shows "map_option (\<lambda>_. JNull) \<circ> secret_data its vals = map_option (\<lambda>_. JNull) \<circ> secret_data its vals'"
proof -
  have "map_option (\<lambda>_. JNull) \<circ> foldl (\<lambda>m (item, value). m(di_key item \<mapsto> JStr value)) m (zip its vals)
      = map_option (\<lambda>_. JNull) \<circ> foldl (\<lambda>m (item, value). m(di_key item \<mapsto> JStr value)) m' (zip its vals')"
    if "map_option (\<lambda>_. JNull) \<circ> m = map_option (\<lambda>_. JNull) \<circ> m'" for m m' :: "string \<rightharpoonup> json"
    using assms that
  proof (induction vals vals' arbitrary: its m m' rule: list_induct2)
    case Nil
    then show ?case by simp
  next
    case (Cons x xs y ys)
    show ?case
    proof (cases its)
      case Nil
      then show ?thesis using Cons.prems by simp
    next
      case it: (Cons i ks)
      have "map_option (\<lambda>_. JNull) \<circ> m(di_key i \<mapsto> JStr x) = map_option (\<lambda>_. JNull) \<circ> m'(di_key i \<mapsto> JStr y)"
        using Cons.prems by (auto simp: fun_eq_iff)
      from Cons.IH [OF this, of ks] show ?thesis by (simp add: it)
    qed
  qed
  then show ?thesis by (simp add: secret_data_def)
qed

lemma secret_body_blank:
  assumes "length vals = length vals'"
  shows "blank_values (secret_body v owner (secret_data its vals)) = blank_values (secret_body v owner (secret_data its vals'))"
  using secret_data_blank [OF assms] by (simp add: secret_body_def blank_values_def cong: if_cong)

lemma agree_write_secret:
  assumes "blind E" and "length vals = length vals'"
  shows "agree same_history (=) (write_secret E v vals) (write_secret E v vals')"
proof (cases "vws_owner_ref v")
  case None
  then show ?thesis by (simp add: write_secret_def agree_simple)
next
  case (Some owner)
  then show ?thesis
    unfolding write_secret_def Let_def abind_def
    by (simp, intro agree_amatch [OF secure_prims(4) [OF assms(1)]])
      (simp_all add: agree_kube_call [OF assms(1)] secret_body_blank [OF assms(2)] agree_simple)
qed

lemma agree_net: "agree same_history P m m' \<Longrightarrow> agree same_public P (net m) (net m')"
  by (simp add: agree_def azoom_def same_public_def split: prod.split) (metis fst_conv snd_conv)

lemma secure_patch_status [secure_rules]:
  assumes "blind E"
  shows "secure same_history (set_ready_status E v)" "secure same_history (set_failed_status E v msg)"
  unfolding set_ready_status_def set_failed_status_def patch_status_def by (intro secure_rules assms)+

lemma secure_reconcile:
  assumes "blind E"
  shows "secure same_public (reconcile_apply E c v)"
proof -
  have fetch: "secure same_public (amatch (fetch_secrets E c reqs)
      (\<lambda>vals. abind (net (write_secret E v vals)) (\<lambda>_. abind (net (set_ready_status E v)) (\<lambda>_. areturn q)))
      (\<lambda>e. abind (net (set_failed_status E v (msg e))) (\<lambda>_. areturn q)))" for reqs msg q
  proof (rule agree_amatch [OF agree_fetch_secrets [OF assms]])
    fix vals vals' :: "string list" assume "length vals = length vals'"
    then show "agree same_public (=)
        (abind (net (write_secret E v vals)) (\<lambda>_. abind (net (set_ready_status E v)) (\<lambda>_. areturn q)))
        (abind (net (write_secret E v vals')) (\<lambda>_. abind (net (set_ready_status E v)) (\<lambda>_. areturn q)))"
      unfolding abind_def
      by (intro agree_amatch [OF agree_net [OF agree_write_secret [OF assms]]])
        (auto intro!: secure_rules assms)
  qed (intro secure_rules assms)
  show ?thesis unfolding reconcile_apply_def by (intro secure_rules fetch assms)
qed

section \<open>Properties\<close>

text \<open>A reconciler at work: the events of its queue one after another, each result kept.\<close>

fun reconcile_all ::
    "'rsa env \<Rightarrow> client_config \<Rightarrow> finalizer_event list \<Rightarrow> world \<Rightarrow> (reconcile_error, requeue) outcome list \<times> world"
  where
  "reconcile_all E c [] w = ([], w)"
| "reconcile_all E c (e # es) w =
     (case reconcile_event E c e w of
        (r, w1) \<Rightarrow> (case reconcile_all E c es w1 of (rs, w2) \<Rightarrow> (r # rs, w2)))"

lemma secure_reconcile_event: "blind E \<Longrightarrow> secure same_public (reconcile_event E c e)"
  by (cases e) (simp_all add: reconcile_event_def secure_reconcile secure_rules)

text \<open>C3. Secret values stay in Secrets: over any sequence of reconciliations, two clients whose
  snapshots differ only in what their items contain send the same requests, write the same status
  patches with the same messages, read and write the same Secrets with the same keys, and return the
  same results; only the values under the keys of a Secret's \<open>stringData\<close> may differ. (The servers
  and the cluster do not answer by those values.)\<close>

theorem secret_values_confined:
  assumes "blind E" and "same_public w w'"
  shows "fst (reconcile_all E c es w) = fst (reconcile_all E c es w')
    \<and> erase (trace (snd (reconcile_all E c es w))) = erase (trace (snd (reconcile_all E c es w')))"
proof -
  have "fst (reconcile_all E c es w) = fst (reconcile_all E c es w')
      \<and> same_public (snd (reconcile_all E c es w)) (snd (reconcile_all E c es w'))"
    using assms(2)
  proof (induction es arbitrary: w w')
    case Nil
    then show ?case by simp
  next
    case (Cons e es)
    have "fst (reconcile_event E c e w) = fst (reconcile_event E c e w')"
      "same_public (snd (reconcile_event E c e w)) (snd (reconcile_event E c e w'))"
      using secure_reconcile_event [OF assms(1), of c e] Cons.prems by (auto simp: agree_def outcome.rel_eq)
    with Cons.IH [OF this(2)] show ?case by (simp split: prod.split) (metis fst_conv snd_conv)
  qed
  then show ?thesis by (simp add: same_public_def)
qed

definition other_world :: world where
  "other_world = toy_world\<lparr>session := toy_session\<lparr>vault := Some (toy_cache\<lparr>items :=
     [demo_item ''c1'' None ''db'' ''changed'', demo_item ''c2'' (Some ''o1'') ''db'' ''shared'']\<rparr>)\<rparr>\<rparr>"

lemma toy_env_blind: "blind toy_env"
  by (auto simp: blind_def toy_env_def server_env_def erase_def dest: map_eq_imp_length_eq)

lemma other_world_same: "same_public toy_world other_world"
  by (simp add: same_public_def public_session_def other_world_def toy_world_def toy_session_def
      same_shape_def same_item_def toy_cache_def demo_item_def)

theorem secret_values_confined_witness:
  "vault (session toy_world) \<noteq> vault (session other_world)
   \<and> fst (reconcile_all toy_env toy_config [FinalizerApply toy_vws] toy_world)
      = fst (reconcile_all toy_env toy_config [FinalizerApply toy_vws] other_world)
   \<and> erase (trace (snd (reconcile_all toy_env toy_config [FinalizerApply toy_vws] toy_world)))
      = erase (trace (snd (reconcile_all toy_env toy_config [FinalizerApply toy_vws] other_world)))"
  by (rule conjI [OF _ secret_values_confined [OF toy_env_blind other_world_same]])
    (simp add: other_world_def toy_world_def toy_session_def toy_cache_def demo_item_def)

end
