(* ===== verification/Leader.thy ===== *)
theory Leader
  imports Effects
begin

text \<open>
  \<open>src/leader.rs\<close>: leader election on a Kubernetes lease. The lease library is not under \<open>src/\<close>: its
  answers to \<open>try_acquire_or_renew\<close> and \<open>step_down\<close> are functions of the history. Both loops may run
  forever, so they return \<open>None\<close> when they do; the specifications say when they return and with
  which history.
\<close>

section \<open>Operations\<close>

definition DEFAULT_LEASE_NAME :: string where
  "DEFAULT_LEASE_NAME = ''vaultwarden-operator-leader''"

text \<open>Both in seconds.\<close>

definition LEASE_TTL :: nat where
  "LEASE_TTL = 15"

definition RENEW_INTERVAL :: nat where
  "RENEW_INTERVAL = 5"

record leader_config =
  lease_name :: string
  lease_namespace :: string
  holder_id :: string

text \<open>\<open>from_env\<close>: the variable (when set), the client's namespace, the host name (when it is UTF-8) and
  a fresh UUID.\<close>

definition leader_config_from_env :: "string option \<Rightarrow> string \<Rightarrow> string option \<Rightarrow> string \<Rightarrow> leader_config" where
  "leader_config_from_env var default_namespace hostname uuid =
     \<lparr>lease_name = (case var of Some n \<Rightarrow> n | None \<Rightarrow> DEFAULT_LEASE_NAME),
      lease_namespace = default_namespace,
      holder_id = (case hostname of Some s \<Rightarrow> if s = [] then uuid else s | None \<Rightarrow> uuid)\<rparr>"

definition error_threshold :: nat where
  "error_threshold = max (LEASE_TTL div RENEW_INTERVAL) 2"

datatype acquired = Acquired | ExitedOnSignal

text \<open>\<open>loop { try; match; select { sleep, sigterm } }\<close>.\<close>

partial_function (option) acquire :: "'rsa env \<Rightarrow> history \<Rightarrow> (acquired \<times> history) option" where
  "acquire E h =
     (if lease_answer E (h @ [LeaseTry]) = Inr True then Some (Acquired, h @ [LeaseTry])
      else if stop_at E (h @ [LeaseTry, Slept (nanos RENEW_INTERVAL)])
      then Some (ExitedOnSignal, h @ [LeaseTry, Slept (nanos RENEW_INTERVAL)])
      else acquire E (h @ [LeaseTry, Slept (nanos RENEW_INTERVAL)]))"

definition renew_round :: "event list" where
  "renew_round = [Slept (nanos RENEW_INTERVAL), LeaseTry]"

partial_function (option) renew_loop :: "'rsa env \<Rightarrow> nat \<Rightarrow> history \<Rightarrow> history option" where
  "renew_loop E consecutive_errors h =
     (if lease_answer E (h @ renew_round) = Inr True then renew_loop E 0 (h @ renew_round)
      else if lease_answer E (h @ renew_round) = Inr False then Some (h @ renew_round)
      else if error_threshold \<le> consecutive_errors + 1 then Some (h @ renew_round)
      else renew_loop E (consecutive_errors + 1) (h @ renew_round))"

text \<open>The step-down is best effort: its answer is only logged.\<close>

definition keep_renewing :: "'rsa env \<Rightarrow> history \<Rightarrow> history option" where
  "keep_renewing E h = map_option (\<lambda>h1. h1 @ [LeaseStepDown]) (renew_loop E 0 h)"

section \<open>Rounds\<close>

text \<open>The history after \<open>k\<close> turns of a loop whose turns add the events \<open>es\<close>.\<close>

definition rounds :: "event list \<Rightarrow> nat \<Rightarrow> history \<Rightarrow> history" where
  "rounds es k h = h @ concat (replicate k es)"

lemma rounds_0 [simp]: "rounds es 0 h = h"
  by (simp add: rounds_def)

lemma rounds_step: "rounds es k (h @ es) = rounds es (Suc k) h"
  by (simp add: rounds_def)

lemma rounds_Suc: "rounds es (Suc k) h = rounds es k h @ es"
  by (induction k arbitrary: h) (simp_all add: rounds_def)

text \<open>The answer to the renewal of turn \<open>k\<close>, and whether the loop has a reason to stop there: the
  lease is held by another, or this and the two attempts before it failed.\<close>

definition renewal :: "'rsa env \<Rightarrow> history \<Rightarrow> nat \<Rightarrow> string + bool" where
  "renewal E h k = lease_answer E (rounds renew_round (Suc k) h)"

definition failed_at :: "'rsa env \<Rightarrow> history \<Rightarrow> nat \<Rightarrow> bool" where
  "failed_at E h k \<longleftrightarrow> (case renewal E h k of Inl e \<Rightarrow> True | Inr b \<Rightarrow> False)"

definition gives_up_at :: "'rsa env \<Rightarrow> history \<Rightarrow> nat \<Rightarrow> bool" where
  "gives_up_at E h k \<longleftrightarrow> renewal E h k = Inr False
     \<or> 2 \<le> k \<and> failed_at E h k \<and> failed_at E h (k - 1) \<and> failed_at E h (k - 2)"

text \<open>The error counter before turn \<open>k\<close>.\<close>

fun errors_before :: "'rsa env \<Rightarrow> history \<Rightarrow> nat \<Rightarrow> nat" where
  "errors_before E h 0 = 0"
| "errors_before E h (Suc k) = (if failed_at E h k then errors_before E h k + 1 else 0)"

definition stops_at :: "'rsa env \<Rightarrow> history \<Rightarrow> nat \<Rightarrow> bool" where
  "stops_at E h k \<longleftrightarrow> renewal E h k = Inr False
     \<or> failed_at E h k \<and> error_threshold \<le> errors_before E h k + 1"

lemma threshold_3: "error_threshold = 3"
  by (simp add: error_threshold_def LEASE_TTL_def RENEW_INTERVAL_def)

text \<open>One turn of the loop from the state it is in before turn \<open>k\<close>.\<close>

lemma renew_turn:
  "renew_loop E (errors_before E h k) (rounds renew_round k h) =
     (if stops_at E h k then Some (rounds renew_round (Suc k) h)
      else renew_loop E (errors_before E h (Suc k)) (rounds renew_round (Suc k) h))"
proof -
  have ans: "lease_answer E (rounds renew_round k h @ renew_round) = renewal E h k"
    by (simp add: rounds_Suc renewal_def)
  show ?thesis
    by (subst renew_loop.simps)
      (cases "renewal E h k"; simp add: ans rounds_Suc stops_at_def failed_at_def split: if_splits)
qed

lemma renew_reaches:
  "(\<And>j. j < k \<Longrightarrow> \<not> stops_at E h j) \<Longrightarrow>
     renew_loop E 0 h = renew_loop E (errors_before E h k) (rounds renew_round k h)"
proof (induction k)
  case 0
  show ?case by simp
next
  case (Suc k)
  then have "\<not> stops_at E h k" by simp
  with Suc show ?case using renew_turn [of E h k] by simp
qed

lemma renew_loop_stops:
  assumes "stops_at E h k" and "\<And>j. j < k \<Longrightarrow> \<not> stops_at E h j"
  shows "renew_loop E 0 h = Some (rounds renew_round (Suc k) h)"
  using renew_reaches [of k E h] renew_turn [of E h k] assms by simp

text \<open>Partial correctness, by induction on the computation of the loop.\<close>

lemma renew_loop_returns:
  assumes "renew_loop E (errors_before E h k) (rounds renew_round k h) = Some r"
  shows "\<exists>j. stops_at E h j"
proof -
  let ?P = "\<lambda>E n g r. \<forall>k. n = errors_before E h k \<and> g = rounds renew_round k h \<longrightarrow> (\<exists>j. stops_at E h j)"
  have "?P E (errors_before E h k) (rounds renew_round k h) r"
  proof (rule renew_loop.raw_induct [where P = ?P, OF _ assms], intro allI impI)
    fix loop :: "'a env \<Rightarrow> nat \<Rightarrow> history \<Rightarrow> history option" and E n g r k
    assume IH: "\<And>E n g r. loop E n g = Some r \<Longrightarrow> ?P E n g r"
      and body: "(if lease_answer E (g @ renew_round) = Inr True then loop E 0 (g @ renew_round)
        else if lease_answer E (g @ renew_round) = Inr False then Some (g @ renew_round)
        else if error_threshold \<le> n + 1 then Some (g @ renew_round)
        else loop E (n + 1) (g @ renew_round)) = Some r"
      and at: "n = errors_before E h k \<and> g = rounds renew_round k h"
    have ans: "lease_answer E (rounds renew_round (Suc k) h) = renewal E h k" and g: "g @ renew_round = rounds renew_round (Suc k) h"
      using at by (simp_all add: rounds_Suc renewal_def)
    show "\<exists>j. stops_at E h j"
    proof (cases "stops_at E h k")
      case False
      then have "loop E (errors_before E h (Suc k)) (rounds renew_round (Suc k) h) = Some r"
        using body [unfolded g ans] conjunct1 [OF at]
        by (cases "renewal E h k") (auto simp: stops_at_def failed_at_def split: if_splits)
      from IH [OF this] show ?thesis by blast
    qed blast
  qed
  then show ?thesis by blast
qed

lemma renew_loop_iff:
  "renew_loop E 0 h = Some r \<longleftrightarrow>
     (\<exists>k. stops_at E h k \<and> (\<forall>j < k. \<not> stops_at E h j) \<and> r = rounds renew_round (Suc k) h)"
proof
  assume r: "renew_loop E 0 h = Some r"
  then obtain j where "stops_at E h j" using renew_loop_returns [of E h 0 r] by auto
  then obtain k where k: "stops_at E h k" "\<And>i. i < k \<Longrightarrow> \<not> stops_at E h i"
    using exists_least_iff [of "stops_at E h"] by blast
  with renew_loop_stops [of E h k] r show "\<exists>k. stops_at E h k \<and> (\<forall>j < k. \<not> stops_at E h j) \<and>
      r = rounds renew_round (Suc k) h" by auto
qed (use renew_loop_stops in blast)

text \<open>Until the loop stops, the counter counts the failures just before.\<close>

lemma errors_before_ge:
  "m \<le> errors_before E h k \<longleftrightarrow> m \<le> k \<and> (\<forall>i < m. failed_at E h (k - 1 - i))"
proof (induction k arbitrary: m)
  case 0
  then show ?case by auto
next
  case (Suc k)
  show ?case
  proof (cases m)
    case 0
    then show ?thesis by simp
  next
    case (Suc n)
    have "(\<forall>i < Suc n. failed_at E h (Suc k - 1 - i)) \<longleftrightarrow>
        failed_at E h k \<and> (\<forall>i < n. failed_at E h (k - 1 - i))"
      by (simp add: All_less_Suc2)
    then show ?thesis using Suc.IH [of n] Suc by auto
  qed
qed

lemma stops_iff_gives_up: "stops_at E h k \<longleftrightarrow> gives_up_at E h k"
proof -
  have "error_threshold \<le> errors_before E h k + 1 \<longleftrightarrow> 2 \<le> errors_before E h k"
    by (simp add: threshold_3)
  also have "\<dots> \<longleftrightarrow> 2 \<le> k \<and> failed_at E h (k - 1) \<and> failed_at E h (k - 2)"
    by (simp add: errors_before_ge numeral_2_eq_2 All_less_Suc2 diff_diff_eq)
  finally show ?thesis by (auto simp: stops_at_def gives_up_at_def)
qed

section \<open>Acquiring\<close>

definition acquire_round :: "event list" where
  "acquire_round = [LeaseTry, Slept (nanos RENEW_INTERVAL)]"

text \<open>Turn \<open>k\<close> wins the lease, or ends with a signal during its sleep.\<close>

definition wins_at :: "'rsa env \<Rightarrow> history \<Rightarrow> nat \<Rightarrow> bool" where
  "wins_at E h k \<longleftrightarrow> lease_answer E (rounds acquire_round k h @ [LeaseTry]) = Inr True"

definition signalled_at :: "'rsa env \<Rightarrow> history \<Rightarrow> nat \<Rightarrow> bool" where
  "signalled_at E h k \<longleftrightarrow> stop_at E (rounds acquire_round (Suc k) h)"

lemma acquire_turn:
  "acquire E (rounds acquire_round k h) =
     (if wins_at E h k then Some (Acquired, rounds acquire_round k h @ [LeaseTry])
      else if signalled_at E h k then Some (ExitedOnSignal, rounds acquire_round (Suc k) h)
      else acquire E (rounds acquire_round (Suc k) h))"
  by (subst acquire.simps) (simp add: wins_at_def signalled_at_def rounds_Suc acquire_round_def)

lemma acquire_reaches:
  "(\<And>j. j < k \<Longrightarrow> \<not> wins_at E h j \<and> \<not> signalled_at E h j) \<Longrightarrow>
     acquire E h = acquire E (rounds acquire_round k h)"
proof (induction k)
  case (Suc k)
  then show ?case using acquire_turn [of E k h] by simp
qed simp

lemma acquire_returns:
  assumes "acquire E (rounds acquire_round k h) = Some r"
  shows "\<exists>j. wins_at E h j \<or> signalled_at E h j"
proof -
  let ?P = "\<lambda>E g r. \<forall>k. g = rounds acquire_round k h \<longrightarrow> (\<exists>j. wins_at E h j \<or> signalled_at E h j)"
  have "?P E (rounds acquire_round k h) r"
  proof (rule acquire.raw_induct [where P = ?P, OF _ assms], intro allI impI)
    fix loop :: "'a env \<Rightarrow> history \<Rightarrow> (acquired \<times> history) option" and E g r k
    assume IH: "\<And>E g r. loop E g = Some r \<Longrightarrow> ?P E g r"
      and body: "(if lease_answer E (g @ [LeaseTry]) = Inr True then Some (Acquired, g @ [LeaseTry])
        else if stop_at E (g @ [LeaseTry, Slept (nanos RENEW_INTERVAL)])
        then Some (ExitedOnSignal, g @ [LeaseTry, Slept (nanos RENEW_INTERVAL)])
        else loop E (g @ [LeaseTry, Slept (nanos RENEW_INTERVAL)])) = Some r"
      and at: "g = rounds acquire_round k h"
    show "\<exists>j. wins_at E h j \<or> signalled_at E h j"
    proof (cases "wins_at E h k \<or> signalled_at E h k")
      case False
      then have "loop E (rounds acquire_round (Suc k) h) = Some r"
        using body at by (auto simp: wins_at_def signalled_at_def rounds_Suc acquire_round_def split: if_splits)
      from IH [OF this] show ?thesis by blast
    qed blast
  qed
  then show ?thesis by blast
qed

text \<open>The time slept in a stretch of history, in nanoseconds.\<close>

fun slept :: "history \<Rightarrow> nat" where
  "slept [] = 0"
| "slept (e # h) = (case e of Slept d \<Rightarrow> d | _ \<Rightarrow> 0) + slept h"

lemma slept_append [simp]: "slept (a @ b) = slept a + slept b"
  by (induction a) simp_all

lemma acquire_iff:
  "acquire E h = Some (r, h') \<longleftrightarrow>
     (\<exists>k. (\<nexists>j. j < k \<and> (wins_at E h j \<or> signalled_at E h j)) \<and>
        (if wins_at E h k then r = Acquired \<and> h' = rounds acquire_round k h @ [LeaseTry]
         else signalled_at E h k \<and> r = ExitedOnSignal \<and> h' = rounds acquire_round (Suc k) h))"
proof
  assume a: "acquire E h = Some (r, h')"
  then obtain j where "wins_at E h j \<or> signalled_at E h j"
    using acquire_returns [of E 0 h "(r, h')"] by auto
  then obtain k where k: "wins_at E h k \<or> signalled_at E h k"
    "\<And>i. i < k \<Longrightarrow> \<not> (wins_at E h i \<or> signalled_at E h i)"
    using exists_least_iff [of "\<lambda>j. wins_at E h j \<or> signalled_at E h j"] by blast
  then have "acquire E h = acquire E (rounds acquire_round k h)" by (intro acquire_reaches) blast
  with a k(1) have "if wins_at E h k then r = Acquired \<and> h' = rounds acquire_round k h @ [LeaseTry]
      else signalled_at E h k \<and> r = ExitedOnSignal \<and> h' = rounds acquire_round (Suc k) h"
    by (auto simp: acquire_turn split: if_splits)
  with k(2) show "\<exists>k. (\<nexists>j. j < k \<and> (wins_at E h j \<or> signalled_at E h j)) \<and>
      (if wins_at E h k then r = Acquired \<and> h' = rounds acquire_round k h @ [LeaseTry]
       else signalled_at E h k \<and> r = ExitedOnSignal \<and> h' = rounds acquire_round (Suc k) h)" by blast
next
  assume "\<exists>k. (\<nexists>j. j < k \<and> (wins_at E h j \<or> signalled_at E h j)) \<and>
      (if wins_at E h k then r = Acquired \<and> h' = rounds acquire_round k h @ [LeaseTry]
       else signalled_at E h k \<and> r = ExitedOnSignal \<and> h' = rounds acquire_round (Suc k) h)"
  then obtain k where k: "\<nexists>j. j < k \<and> (wins_at E h j \<or> signalled_at E h j)"
    "if wins_at E h k then r = Acquired \<and> h' = rounds acquire_round k h @ [LeaseTry]
       else signalled_at E h k \<and> r = ExitedOnSignal \<and> h' = rounds acquire_round (Suc k) h" by blast
  then have "acquire E h = acquire E (rounds acquire_round k h)" by (intro acquire_reaches) blast
  with k(2) show "acquire E h = Some (r, h')" by (auto simp: acquire_turn split: if_splits)
qed

section \<open>Properties\<close>

text \<open>C6. The renewal loop of a leader returns exactly when it gives up: at the first attempt that
  finds the lease held by another, or that is the third failure in a row. It then has made one
  attempt every five seconds and ends with one step-down; if neither ever happens it renews for
  ever.\<close>

theorem keep_renewing_spec:
  "keep_renewing E h = Some h' \<longleftrightarrow>
     (\<exists>k. gives_up_at E h k \<and> (\<nexists>j. j < k \<and> gives_up_at E h j)
        \<and> h' = rounds renew_round (Suc k) h @ [LeaseStepDown])"
  by (auto simp: keep_renewing_def renew_loop_iff stops_iff_gives_up)

text \<open>C31. A standby replica waits until it wins the lease or is told to stop, whichever comes first: it
  returns exactly when one of the two ever happens, trying every five seconds, holds the lease
  exactly when the last attempt won it, and a failed attempt (an API error) only means another
  try.\<close>

theorem acquire_spec:
  "acquire E h = Some (r, h') \<longleftrightarrow>
     (\<exists>k. (\<nexists>j. j < k \<and> (wins_at E h j \<or> signalled_at E h j)) \<and>
        (if wins_at E h k then r = Acquired \<and> h' = rounds acquire_round k h @ [LeaseTry]
         else signalled_at E h k \<and> r = ExitedOnSignal \<and> h' = rounds acquire_round (Suc k) h))"
  by (rule acquire_iff)

text \<open>Three failures in a row, with nothing but failures since the success (or the start) before them.\<close>

lemma gives_up_on_failures:
  assumes "renew_loop E 0 h = Some g" and "lease_answer E g = Inl e"
  shows "\<exists>m. g = rounds renew_round (m + 3) h \<and> (m = 0 \<or> renewal E h (m - 1) = Inr True)
    \<and> failed_at E h m \<and> failed_at E h (m + 1) \<and> failed_at E h (m + 2)"
proof -
  obtain k where k: "stops_at E h k" "\<And>j. j < k \<Longrightarrow> \<not> stops_at E h j" "g = rounds renew_round (Suc k) h"
    using assms(1) by (auto simp: renew_loop_iff)
  then have "gives_up_at E h k" "renewal E h k = Inl e" using assms(2) by (simp_all add: stops_iff_gives_up renewal_def)
  then have three: "2 \<le> k" "failed_at E h k" "failed_at E h (k - 1)" "failed_at E h (k - 2)"
    by (auto simp: gives_up_at_def)
  define m where "m = k - 2"
  have m: "k = m + 2" using three(1) by (simp add: m_def)
  have "renewal E h (m - 1) = Inr True" if "m \<noteq> 0"
  proof -
    have "\<not> gives_up_at E h (m - 1)" "\<not> gives_up_at E h (m + 1)"
      using k(2) m by (simp_all add: stops_iff_gives_up)
    then show ?thesis
      using that three(3,4) m by (cases "renewal E h (m - 1)") (auto simp: gives_up_at_def failed_at_def)
  qed
  then show ?thesis using k(3) three m by (intro exI [of _ m]) (auto simp: numeral_3_eq_3)
qed

text \<open>C35. A leader that gives up because renewals fail has not renewed its lease for a full term or longer:
  after its last successful renewal (or, when there was none, since it began to renew) every
  attempt was answered with an error, and it slept at least the lease's time to live in between.\<close>

theorem gives_up_after_ttl:
  assumes "keep_renewing E h = Some (g @ [LeaseStepDown])" and "lease_answer E g = Inl e"
  shows "\<exists>last_renewal since. g = last_renewal @ since
    \<and> (last_renewal = h \<or> suffix [LeaseTry] last_renewal \<and> lease_answer E last_renewal = Inr True)
    \<and> (\<forall>p q. since = p @ LeaseTry # q \<longrightarrow> (\<exists>err. lease_answer E (last_renewal @ p @ [LeaseTry]) = Inl err))
    \<and> nanos LEASE_TTL \<le> slept since"
proof -
  have "renew_loop E 0 h = Some g" using assms(1) by (auto simp: keep_renewing_def)
  from gives_up_on_failures [OF this assms(2)] obtain m where
    m: "g = rounds renew_round (m + 3) h" "m = 0 \<or> renewal E h (m - 1) = Inr True"
    "failed_at E h m" "failed_at E h (m + 1)" "failed_at E h (m + 2)" by blast
  let ?last = "rounds renew_round m h" and ?since = "concat (replicate 3 renew_round)"
  have at: "rounds renew_round (m + n) h = ?last @ concat (replicate n renew_round)" for n
    by (simp add: rounds_def replicate_add)
  have fails: "\<exists>err. lease_answer E (?last @ concat (replicate (Suc n) renew_round)) = Inl err"
    if "failed_at E h (m + n)" for n
    using that at [of "Suc n"] by (auto simp: failed_at_def renewal_def split: sum.splits)
  note errs = fails [of 0] fails [of 1] fails [of 2]
  have "\<exists>err. lease_answer E (?last @ p @ [LeaseTry]) = Inl err" if "?since = p @ LeaseTry # q" for p q
    using that errs m(3-5)
    by (auto simp: renew_round_def numeral_3_eq_3 numeral_2_eq_2 Cons_eq_append_conv)
  moreover have "?last = h \<or> suffix [LeaseTry] ?last \<and> lease_answer E ?last = Inr True"
  proof (cases m)
    case (Suc n)
    then show ?thesis using m(2) by (simp add: renewal_def rounds_Suc renew_round_def suffix_def)
  qed simp
  moreover have "nanos LEASE_TTL \<le> slept ?since"
    by (simp add: renew_round_def numeral_3_eq_3 nanos_def LEASE_TTL_def RENEW_INTERVAL_def)
  moreover have "g = ?last @ ?since" using m(1) at [of 3] by simp
  ultimately show ?thesis by blast
qed

text \<open>A world in which every renewal fails.\<close>

definition failing_env :: "bytes env" where
  "failing_env = \<lparr>http_answer = (\<lambda>h. Inl []), clock_at = (\<lambda>h. 0), utc_at = (\<lambda>h. []), secret_exists = (\<lambda>h. Inl []),
     kube_write = (\<lambda>h. None), lease_answer = (\<lambda>h. Inl ''timeout''), lease_release = (\<lambda>h. None),
     stop_at = (\<lambda>h. False), text_of = (\<lambda>b. []), de_prelogin = (\<lambda>b. Inl []), de_token = (\<lambda>b. Inl []),
     de_profile_key = (\<lambda>b. Inl []), de_sync = (\<lambda>b. Inl []), prims_of = toy_prims, ucd_of = toy_ucd,
     hash_iter = (\<lambda>m. m), debug_str = (\<lambda>s. s), overflow_checks = False\<rparr>"

theorem gives_up_after_ttl_witness:
  "keep_renewing failing_env [] = Some (rounds renew_round 3 [] @ [LeaseStepDown])
   \<and> (\<exists>last_renewal since. rounds renew_round 3 [] = last_renewal @ since
        \<and> (last_renewal = [] \<or> lease_answer failing_env last_renewal = Inr True) \<and> nanos LEASE_TTL \<le> slept since)"
proof -
  have "keep_renewing failing_env [] = Some (rounds renew_round 3 [] @ [LeaseStepDown])"
    by (simp add: keep_renewing_def renew_loop.simps threshold_3 rounds_def numeral_3_eq_3 failing_env_def)
  moreover have "lease_answer failing_env (rounds renew_round 3 []) = Inl ''timeout''" by (simp add: failing_env_def)
  ultimately show ?thesis using gives_up_after_ttl [of failing_env "[]" "rounds renew_round 3 []" "''timeout''"] by blast
qed

end
