(* ===== verification/Health.thy ===== *)
theory Health
  imports RustStr
begin

text \<open>
  \<open>src/health.rs\<close>: one connection of the probe server, from what \<open>read_line\<close> returns to the bytes
  written back, and the loop that accepts connections. Binding the port has no logic of its own.
\<close>

section \<open>Operations\<close>

text \<open>What successive calls of \<open>read_line\<close> return: a line (with its terminator) or an error; the end of
  the list is the end of the stream (\<open>Ok(0)\<close>).\<close>

datatype line_read = Line string | ReadError

abbreviation crlf :: string where
  "crlf \<equiv> [CHR 13, CHR 10]"

text \<open>The first line and what follows it; \<open>None\<close> when reading it fails.\<close>

fun read_request_line :: "line_read list \<Rightarrow> (string \<times> line_read list) option" where
  "read_request_line [] = Some ([], [])"
| "read_request_line (ReadError # rest) = None"
| "read_request_line (Line l # rest) = Some (l, rest)"

text \<open>Drain the headers; the result is what is left unread.\<close>

fun drain_headers :: "line_read list \<Rightarrow> line_read list" where
  "drain_headers [] = []"
| "drain_headers (ReadError # rest) = rest"
| "drain_headers (Line l # rest) =
     (if l = [] \<or> l = crlf \<or> l = [CHR 10] then rest else drain_headers rest)"

definition request_path :: "string \<Rightarrow> string" where
  "request_path request_line =
     (let parts = split_whitespace request_line
      in if 1 < length parts then parts ! 1 else ''/'')"

definition ok_text :: string where
  "ok_text = ''HTTP/1.1 200 OK'' @ crlf @ ''Content-Length: 2'' @ crlf @ ''Content-Type: text/plain'' @ crlf
     @ crlf @ ''OK''"

definition not_found_text :: string where
  "not_found_text = ''HTTP/1.1 404 Not Found'' @ crlf @ ''Content-Length: 9'' @ crlf
     @ ''Content-Type: text/plain'' @ crlf @ crlf @ ''Not Found''"

definition health_response :: "string \<Rightarrow> string" where
  "health_response path = (if path = ''/healthz'' \<or> path = ''/readyz'' then ok_text else not_found_text)"

text \<open>The response written (\<open>None\<close>: the connection is closed without one) and the input left.\<close>

definition handle_connection :: "line_read list \<Rightarrow> string option \<times> line_read list" where
  "handle_connection input =
     (case read_request_line input of
        None \<Rightarrow> (None, tl input)
      | Some (request_line, rest) \<Rightarrow> (Some (health_response (request_path request_line)), drain_headers rest))"

text \<open>\<open>serve\<close>: what successive calls of \<open>accept\<close> return. Every connection is handled by a task of its own;
  a failed \<open>accept\<close> is only logged.\<close>

datatype accepted = Connection "line_read list" | AcceptError

fun serve :: "accepted list \<Rightarrow> string option list" where
  "serve [] = []"
| "serve (Connection input # rest) = fst (handle_connection input) # serve rest"
| "serve (AcceptError # rest) = serve rest"

lemma serve_append: "serve (a @ b) = serve a @ serve b"
  by (induction a rule: serve.induct) simp_all

section \<open>Splitting a request line\<close>

definition token :: "string \<Rightarrow> bool" where
  "token s \<longleftrightarrow> s \<noteq> [] \<and> list_all is_ascii s \<and> list_all (\<lambda>c. \<not> is_whitespace [c]) s"

lemma words_from_token:
  assumes "list_all (\<lambda>c. \<not> is_whitespace [c]) s"
  shows "words_from acc (map (\<lambda>c. [c]) s @ cs) = words_from (rev (map (\<lambda>c. [c]) s) @ acc) cs"
  using assms by (induction s arbitrary: acc) simp_all

lemma concat_singletons [simp]: "concat (map (\<lambda>c. [c]) s) = s"
  by (induction s) simp_all

lemma split_token:
  assumes "token s" and "is_ascii c" and "is_whitespace [c]"
  shows "split_whitespace (s @ c # t) = s # split_whitespace t"
proof -
  have "chars (s @ c # t) = map (\<lambda>c. [c]) s @ [c] # chars t"
    using assms(1,2) by (simp add: token_def chars_ascii_append)
  then have "split_whitespace (s @ c # t) = words_from (rev (map (\<lambda>c. [c]) s)) ([c] # chars t)"
    using assms(1) words_from_token [of s "[]" "[c] # chars t"] by (simp add: split_whitespace_def token_def)
  also have "\<dots> = s # split_whitespace t"
    using assms(1,3) by (simp add: split_whitespace_def token_def)
  finally show ?thesis .
qed

section \<open>Reading messages back\<close>

text \<open>An HTTP/1.1 message with a body of known length: a status line, headers, an empty line, a body.\<close>

definition http_message :: "string \<Rightarrow> string list \<Rightarrow> string \<Rightarrow> string" where
  "http_message status_line headers body =
     status_line @ crlf @ concat (map (\<lambda>h. h @ crlf) headers) @ crlf @ body"

lemma show_small: "show_nat (Suc (Suc 0)) = ''2''" "show_nat (Suc (Suc (Suc (Suc (Suc (Suc (Suc (Suc (Suc 0)))))))) ) = ''9''"
  by (simp_all add: show_nat.simps char_of_eq_iff)

section \<open>Properties\<close>

text \<open>C36. A probe is answered by its target alone: for a request line of method, target and version,
  200 exactly for \<open>/healthz\<close> and \<open>/readyz\<close> and 404 otherwise, whatever the method and headers,
  however the rest of the input ends, and whatever connections and failed accepts came before.\<close>

theorem health_probe:
  assumes "token m" and "token t" and "token v"
  shows "serve (before @ Connection (Line (m @ '' '' @ t @ '' '' @ v @ crlf) # rest) # later) =
    serve before @ [Some (if t = ''/healthz'' \<or> t = ''/readyz'' then ok_text else not_found_text)] @ serve later"
proof -
  have sp: "is_ascii CHR '' ''" "is_whitespace [CHR '' '']"
    by (simp_all add: is_ascii_def is_whitespace_def white_space_def)
  have "split_whitespace (m @ '' '' @ t @ '' '' @ v @ crlf) = m # t # split_whitespace (v @ crlf)"
    using split_token [OF assms(1) sp, of "t @ '' '' @ v @ crlf"] split_token [OF assms(2) sp, of "v @ crlf"]
    by simp
  then show ?thesis by (simp add: serve_append handle_connection_def request_path_def health_response_def)
qed

theorem health_probe_witness:
  "serve [AcceptError, Connection [Line (''GET'' @ '' '' @ ''/readyz'' @ '' '' @ ''HTTP/1.1'' @ crlf), ReadError]]
    = [Some ok_text]"
  using health_probe [of "''GET''" "''/readyz''" "''HTTP/1.1''" "[AcceptError]" "[ReadError]" "[]"]
  by (simp add: token_def is_ascii_def is_whitespace_def white_space_def)

text \<open>Every response of the probe server is one of two well-formed HTTP messages whose
  \<open>Content-Length\<close> is the length of the body; the connection is closed without a response only
  when the request line cannot be read, and at the end of the stream it still answers (404).\<close>

theorem health_messages:
  "(case fst (handle_connection input) of
      None \<Rightarrow> \<exists>rest. input = ReadError # rest
    | Some r \<Rightarrow> \<exists>status body.
        r = http_message status [''Content-Length: '' @ show_nat (length body), ''Content-Type: text/plain''] body)
   \<and> fst (handle_connection []) = Some not_found_text"
proof -
  have ok: "ok_text = http_message ''HTTP/1.1 200 OK''
      [''Content-Length: '' @ show_nat (length ''OK''), ''Content-Type: text/plain''] ''OK''"
    by (simp add: ok_text_def http_message_def show_small)
  have nf: "not_found_text = http_message ''HTTP/1.1 404 Not Found''
      [''Content-Length: '' @ show_nat (length ''Not Found''), ''Content-Type: text/plain''] ''Not Found''"
    by (simp add: not_found_text_def http_message_def show_small)
  have "\<exists>status body. health_response p = http_message status
      [''Content-Length: '' @ show_nat (length body), ''Content-Type: text/plain''] body" for p
    using ok nf by (simp only: health_response_def) metis
  moreover have "fst (handle_connection []) = Some not_found_text"
    by (simp add: handle_connection_def request_path_def split_whitespace_def health_response_def)
  moreover have "read_request_line input = None \<longleftrightarrow> (\<exists>rest. input = ReadError # rest)"
    by (cases input rule: read_request_line.cases) simp_all
  ultimately show ?thesis by (auto simp: handle_connection_def split: option.splits)
qed

end
