(* ===== verification/Background.thy ===== *)
theory Background
  imports Client Leader
begin

text \<open>
  The two background tasks of \<open>src/vault/mod.rs\<close>: the token refresh and the periodic re-sync. Each is a
  loop of turns that ends when it is cancelled; a turn is an action on the client's world. (The
  sleeping arm of a \<open>select\<close> is the event of the armed timer; \<open>stop_at\<close> says whether the other arm,
  the cancellation, came first.)
\<close>

section \<open>Loops of turns\<close>

datatype turn = Again | Stopped

text \<open>A loop may run for ever; a panic ends it.\<close>

partial_function (option) run_loop ::
    "('s \<Rightarrow> ('e, turn) outcome \<times> 's) \<Rightarrow> 's \<Rightarrow> (('e, turn) outcome \<times> 's) option" where
  "run_loop turn s = (if fst (turn s) = Ok Again then run_loop turn (snd (turn s)) else Some (turn s))"

text \<open>The state after \<open>n\<close> turns.\<close>

fun after_turns :: "('s \<Rightarrow> ('e, turn) outcome \<times> 's) \<Rightarrow> nat \<Rightarrow> 's \<Rightarrow> 's" where
  "after_turns turn 0 s = s"
| "after_turns turn (Suc n) s = snd (turn (after_turns turn n s))"

lemma run_loop_reaches:
  "(\<And>j. j < n \<Longrightarrow> fst (turn (after_turns turn j s)) = Ok Again) \<Longrightarrow>
     run_loop turn s = run_loop turn (after_turns turn n s)"
proof (induction n)
  case (Suc n)
  then have "run_loop turn (after_turns turn n s) = run_loop turn (snd (turn (after_turns turn n s)))"
    by (subst run_loop.simps) simp
  with Suc show ?case by simp
qed simp

lemma run_loop_ends:
  assumes "run_loop turn (after_turns turn k s) = Some r"
  shows "\<exists>n. fst (turn (after_turns turn n s)) \<noteq> Ok Again"
proof -
  let ?P = "\<lambda>t g r. \<forall>k. t = turn \<and> g = after_turns turn k s \<longrightarrow> (\<exists>n. fst (turn (after_turns turn n s)) \<noteq> Ok Again)"
  have "?P turn (after_turns turn k s) r"
  proof (rule run_loop.raw_induct [where P = ?P, OF _ assms], intro allI impI)
    fix loop :: "('b \<Rightarrow> ('a, turn) outcome \<times> 'b) \<Rightarrow> 'b \<Rightarrow> (('a, turn) outcome \<times> 'b) option" and t g r k
    assume IH: "\<And>t g r. loop t g = Some r \<Longrightarrow> ?P t g r"
      and body: "(if fst (t g) = Ok Again then loop t (snd (t g)) else Some (t g)) = Some r"
      and at: "t = turn \<and> g = after_turns turn k s"
    show "\<exists>n. fst (turn (after_turns turn n s)) \<noteq> Ok Again"
    proof (cases "fst (turn (after_turns turn k s)) = Ok Again")
      case True
      then have "loop turn (after_turns turn (Suc k) s) = Some r" using body at by simp
      from IH [OF this] show ?thesis by blast
    qed blast
  qed
  then show ?thesis by blast
qed

lemma run_loop_iff:
  "run_loop turn s = Some r \<longleftrightarrow>
     (\<exists>n. r = turn (after_turns turn n s) \<and> fst r \<noteq> Ok Again
        \<and> (\<forall>j < n. fst (turn (after_turns turn j s)) = Ok Again))"
proof
  assume r: "run_loop turn s = Some r"
  then obtain j where "fst (turn (after_turns turn j s)) \<noteq> Ok Again"
    using run_loop_ends [of turn 0 s r] by auto
  then obtain n where n: "fst (turn (after_turns turn n s)) \<noteq> Ok Again"
    "\<And>i. i < n \<Longrightarrow> fst (turn (after_turns turn i s)) = Ok Again"
    using exists_least_iff [of "\<lambda>j. fst (turn (after_turns turn j s)) \<noteq> Ok Again"] by blast
  moreover have "run_loop turn (after_turns turn n s) = Some (turn (after_turns turn n s))"
    using n(1) by (subst run_loop.simps) simp
  ultimately show "\<exists>n. r = turn (after_turns turn n s) \<and> fst r \<noteq> Ok Again
        \<and> (\<forall>j < n. fst (turn (after_turns turn j s)) = Ok Again)"
    using r run_loop_reaches [of n turn s] by (intro exI [of _ n]) auto
next
  assume "\<exists>n. r = turn (after_turns turn n s) \<and> fst r \<noteq> Ok Again
        \<and> (\<forall>j < n. fst (turn (after_turns turn j s)) = Ok Again)"
  then obtain n where n: "r = turn (after_turns turn n s)" "fst r \<noteq> Ok Again"
    "\<And>j. j < n \<Longrightarrow> fst (turn (after_turns turn j s)) = Ok Again" by blast
  then have "run_loop turn (after_turns turn n s) = Some r" by (subst run_loop.simps) simp
  with run_loop_reaches [of n turn s] n(3) show "run_loop turn s = Some r" by simp
qed

text \<open>What every turn keeps, the loop keeps.\<close>

lemma run_loop_invariant:
  assumes "run_loop turn s = Some r" and "I s" and "\<And>s. I s \<Longrightarrow> I (snd (turn s))"
  shows "I (snd r)"
proof -
  have "I (after_turns turn n s)" for n by (induction n) (simp_all add: assms(2,3))
  moreover obtain n where "r = turn (after_turns turn n s)" using assms(1) by (auto simp: run_loop_iff)
  ultimately show ?thesis using assms(3) by blast
qed

section \<open>Operations\<close>

definition sleep_or_stop :: "'rsa env \<Rightarrow> nat \<Rightarrow> (history, 'e, bool) action" where
  "sleep_or_stop E d h = (let h' = h @ [Slept d] in (Ok (stop_at E h'), h'))"

text \<open>Sleep until 60 seconds before the token expires.\<close>

definition token_sleep :: "'rsa env \<Rightarrow> (world, vault_error, nat) action" where
  "token_sleep E =
     abind (aget (\<lambda>w. token_expires_at (session w))) (\<lambda>expires_at.
     abind (case instant_checked_sub expires_at (nanos 60) of
              Some t \<Rightarrow> areturn t | None \<Rightarrow> net (read_clock E)) (\<lambda>refresh_at.
     abind (net (read_clock E)) (\<lambda>now.
       areturn (saturating_duration_since refresh_at now))))"

definition token_refresh_turn :: "'rsa env \<Rightarrow> client_config \<Rightarrow> (world, vault_error, turn) action" where
  "token_refresh_turn E c =
     abind (token_sleep E) (\<lambda>sleep_dur.
     abind (net (sleep_or_stop E sleep_dur)) (\<lambda>cancelled.
       if cancelled then areturn Stopped
       else amatch (ensure_valid_token E c)
              (\<lambda>_. areturn Again)
              (\<lambda>e. abind (net (sleep_or_stop E (nanos 30))) (\<lambda>cancelled.
                     areturn (if cancelled then Stopped else Again)))))"

definition start_token_refresh ::
    "'rsa env \<Rightarrow> client_config \<Rightarrow> world \<Rightarrow> ((vault_error, turn) outcome \<times> world) option" where
  "start_token_refresh E c w = run_loop (token_refresh_turn E c) w"

text \<open>One tick of the interval timer, or the cancellation.\<close>

definition tick_or_stop :: "'rsa env \<Rightarrow> (history, 'e, bool) action" where
  "tick_or_stop E h = (let h' = h @ [Ticked] in (Ok (stop_at E h'), h'))"

definition cache_refresh_turn :: "'rsa env \<Rightarrow> client_config \<Rightarrow> (world, vault_error, turn) action" where
  "cache_refresh_turn E c =
     abind (net (tick_or_stop E)) (\<lambda>cancelled.
       if cancelled then areturn Stopped
       else amatch (refresh_vault_cache E c) (\<lambda>_. areturn Again) (\<lambda>e. areturn Again))"

text \<open>\<open>tokio::time::interval\<close> panics on a zero period; the first tick is consumed before the loop.\<close>

definition start_vault_cache_refresh ::
    "'rsa env \<Rightarrow> client_config \<Rightarrow> nat \<Rightarrow> world \<Rightarrow> ((vault_error, turn) outcome \<times> world) option" where
  "start_vault_cache_refresh E c period w =
     (if period = 0 then Some (Panic, w)
      else run_loop (cache_refresh_turn E c) (w\<lparr>trace := trace w @ [Ticked]\<rparr>))"

section \<open>Turns\<close>

lemma token_sleep_eq:
  assumes "- (2 ^ 63) \<le> (token_expires_at (session w) - 60000000000) div 1000000000"
  shows "token_sleep E w =
    (Ok (saturating_duration_since (token_expires_at (session w) - 60000000000) (clock_at E (trace w @ [ClockRead]))),
     w\<lparr>trace := trace w @ [ClockRead]\<rparr>)"
  using assms
  by (simp add: token_sleep_def instant_checked_sub_def nanos_def Let_def outcome_simps aget_def areturn_def
      read_clock_def azoom_def)

lemma cache_turn_initialized:
  assumes "initialized E (session w)"
  shows "initialized E (session (snd (cache_refresh_turn E c w)))"
proof -
  let ?w1 = "w\<lparr>trace := trace w @ [Ticked]\<rparr>"
  have "initialized E (session (snd (refresh_vault_cache E c ?w1)))"
    using assms by (intro refresh_initialized) simp
  then show ?thesis
    using assms by (auto simp: cache_refresh_turn_def tick_or_stop_def action_defs Let_def
        split: prod.splits outcome.splits)
qed

lemma cache_turn_not_Err: "fst (cache_refresh_turn E c w) \<noteq> Err e"
  by (auto simp: cache_refresh_turn_def tick_or_stop_def action_defs Let_def split: prod.splits outcome.splits)

text \<open>The first request of a token renewal: the refresh grant, or the prelogin of a full
  authentication when there is no refresh token.\<close>

definition renewal_request :: "client_config \<Rightarrow> session \<Rightarrow> http_request" where
  "renewal_request c s =
     (if sess_refresh_token s = [] then prelogin_request (cfg_base_url c) (cfg_email c)
      else token_request (cfg_base_url c) (refresh_params (sess_refresh_token s)))"

lemma amatch_first:
  assumes "tr (snd (m s)) = h" and "\<And>x. adds tr R (f x)" and "\<And>e. adds tr R (g e)"
  shows "\<exists>new. tr (snd (amatch m f g s)) = h @ new"
proof (cases "m s")
  case (Pair r s')
  show ?thesis
  proof (cases r)
    case (Ok x)
    then show ?thesis using Pair assms(1) addsD [OF assms(2) [of x], of s'] by (auto simp: amatch_def)
  next
    case (Err e)
    then show ?thesis using Pair assms(1) addsD [OF assms(3) [of e], of s'] by (auto simp: amatch_def)
  next
    case Panic
    then show ?thesis using Pair assms(1) by (simp add: amatch_def)
  qed
qed

lemma authenticate_first:
  "\<exists>new. snd (authenticate E base_url email pw cid cs dev h) = h @ [HttpSent (prelogin_request base_url email)] @ new"
proof -
  have "\<exists>new. (\<lambda>h. h) (snd (authenticate E base_url email pw cid cs dev h)) =
      (h @ [HttpSent (prelogin_request base_url email)]) @ new"
    unfolding authenticate_def abind_def [of "prelogin E base_url email"]
    by (rule amatch_first [where R = quiet]) (simp add: prelogin_sent, unfold log_in_send fetch_profile_key_def,
      (intro quiet_rules)+)
  then show ?thesis by simp
qed

lemma abind_aget: "abind (aget f) k w = k (f w) w"
  by (simp add: abind_def amatch_def aget_def)

lemma refresh_token_sent:
  "rt \<noteq> [] \<Longrightarrow> snd (refresh_token E base_url rt h) = h @ [HttpSent (token_request base_url (refresh_params rt))]"
  using send_json_sent [of E AuthHttp AuthServer "de_token E" "token_request base_url (refresh_params rt)" h]
  by (auto simp: refresh_token_def abind_def amatch_def areturn_def afail_def Let_def split: prod.splits outcome.splits)

lemma do_refresh_first:
  "\<exists>new. trace (snd (do_refresh_or_reauth E c w)) = trace w @ [HttpSent (renewal_request c (session w))] @ new"
proof (cases "sess_refresh_token (session w) = []")
  case True
  then have "do_refresh_or_reauth E c w = re_authenticate E c w"
    by (simp add: do_refresh_or_reauth_def refresh_token_def action_defs)
  moreover obtain new where "snd (authenticate E (cfg_base_url c) (cfg_email c) (cfg_password c) (cfg_client_id c)
      (cfg_client_secret c) (cfg_device_id c) (trace w)) =
        trace w @ [HttpSent (prelogin_request (cfg_base_url c) (cfg_email c))] @ new"
    using authenticate_first by blast
  moreover have "\<exists>new'. trace (snd (re_authenticate E c w)) = (trace w @
      [HttpSent (prelogin_request (cfg_base_url c) (cfg_email c))] @ new) @ new'"
    unfolding re_authenticate_def atry_def expiry_instant_def
    by (rule amatch_first [where R = quiet])
      (simp only: net_trace calculation, (intro quiet_rules; simp), intro quiet_rules)
  ultimately show ?thesis using True by (auto simp: renewal_request_def)
next
  case False
  have "\<exists>new. trace (snd (do_refresh_or_reauth E c w)) =
      (trace w @ [HttpSent (token_request (cfg_base_url c) (refresh_params (sess_refresh_token (session w))))]) @ new"
    unfolding do_refresh_or_reauth_def abind_aget re_authenticate_def expiry_instant_def
    by (rule amatch_first [where R = quiet])
      (simp add: net_trace refresh_token_sent False, (intro quiet_rules; simp)+)
  then show ?thesis using False by (simp add: renewal_request_def)
qed

text \<open>One turn of the token task whose sleep was not cancelled and whose timer did not fire early.\<close>

lemma token_turn_awake:
  assumes "token_sleep E w = (Ok d, w1)" and "\<not> stop_at E (trace w1 @ [Slept d])"
  shows "token_refresh_turn E c w =
    amatch (ensure_valid_token E c) (\<lambda>_. areturn Again)
      (\<lambda>e. abind (net (sleep_or_stop E (nanos 30))) (\<lambda>cancelled. areturn (if cancelled then Stopped else Again)))
      (w1\<lparr>trace := trace w1 @ [Slept d]\<rparr>)"
  using assms
  by (simp add: token_refresh_turn_def outcome_simps sleep_or_stop_def Let_def azoom_def abind_def [of "net _"]
      amatch_def)

lemma ensure_expiring:
  assumes "token_expires_at (session w) \<le> clock_at E (trace w @ [ClockRead]) + int (nanos 60)"
    and "(clock_at E (trace w @ [ClockRead]) + int (nanos 60)) div 1000000000 < 2 ^ 63"
  shows "ensure_valid_token E c w = do_refresh_or_reauth E c (w\<lparr>trace := trace w @ [ClockRead]\<rparr>)"
  using assms
  by (simp add: ensure_valid_token_def abind_aget)
    (simp add: abind_def amatch_def read_clock_def azoom_def Let_def alift_def instant_add_def)

lemma cooldown_sleep_quiet [quiet_rules]: "adds (\<lambda>h. h) quiet (sleep_or_stop E d)"
  by (simp add: adds_def sleep_or_stop_def Let_def quiet_def)

text \<open>C16. The access token is renewed before it expires: the token task arms a timer for 60 seconds
  before the expiry (for now, when that has passed), and when it wakes up (not cancelled, and the
  timer did not fire early), it sends the renewal request, with nothing else sent in between.\<close>

theorem token_turn_renews:
  assumes "int (nanos 60) \<le> token_expires_at (session w)"
    and "d = saturating_duration_since (token_expires_at (session w) - int (nanos 60)) (clock_at E (trace w @ [ClockRead]))"
    and "\<not> stop_at E (trace w @ [ClockRead, Slept d])"
    and "clock_at E (trace w @ [ClockRead]) + int d \<le> clock_at E (trace w @ [ClockRead, Slept d, ClockRead])"
    and "clock_at E (trace w @ [ClockRead, Slept d, ClockRead]) \<le> int (nanos (2 ^ 62))"
  shows "\<exists>new. trace (snd (token_refresh_turn E c w)) =
    trace w @ [ClockRead, Slept d, ClockRead, HttpSent (renewal_request c (session w))] @ new"
proof -
  let ?w1 = "w\<lparr>trace := trace w @ [ClockRead]\<rparr>" and ?w2 = "w\<lparr>trace := trace w @ [ClockRead, Slept d]\<rparr>"
  let ?h3 = "trace w @ [ClockRead, Slept d, ClockRead]"
  have "0 div 1000000000 \<le> (token_expires_at (session w) - 60000000000) div 1000000000"
    using assms(1) by (intro zdiv_mono1) (simp_all add: nanos_def)
  then have sleep: "token_sleep E w = (Ok d, ?w1)"
    using assms(2) by (subst token_sleep_eq) (simp_all add: nanos_def)
  have "token_expires_at (session w) - int (nanos 60) - clock_at E (trace w @ [ClockRead]) \<le> int d"
    unfolding assms(2) saturating_duration_since_def by simp
  with assms(4) have "token_expires_at (session w) \<le> clock_at E ?h3 + int (nanos 60)" by linarith
  moreover have "(clock_at E ?h3 + int (nanos 60)) div 1000000000 < 2 ^ 63"
    using assms(5) by (simp add: nanos_def)
  ultimately have "ensure_valid_token E c ?w2 = do_refresh_or_reauth E c (w\<lparr>trace := ?h3\<rparr>)"
    by (subst ensure_expiring) simp_all
  moreover obtain new where "trace (snd (do_refresh_or_reauth E c (w\<lparr>trace := ?h3\<rparr>))) =
      ?h3 @ [HttpSent (renewal_request c (session w))] @ new"
    using do_refresh_first [of E c "w\<lparr>trace := ?h3\<rparr>"] by auto
  ultimately have first: "trace (snd (ensure_valid_token E c ?w2)) =
      trace w @ [ClockRead, Slept d, ClockRead, HttpSent (renewal_request c (session w))] @ new" by simp
  have turn: "token_refresh_turn E c w =
    amatch (ensure_valid_token E c) (\<lambda>_. areturn Again)
      (\<lambda>e. abind (net (sleep_or_stop E (nanos 30))) (\<lambda>cancelled. areturn (if cancelled then Stopped else Again))) ?w2"
    using token_turn_awake [OF sleep] assms(3) by simp
  have "\<exists>new'. trace (snd (token_refresh_turn E c w)) =
      (trace w @ [ClockRead, Slept d, ClockRead, HttpSent (renewal_request c (session w))] @ new) @ new'"
    unfolding turn using first by (rule amatch_first [where R = quiet]) (intro quiet_rules)+
  then show ?thesis by auto
qed

theorem token_turn_renews_witness:
  "\<exists>new. trace (snd (token_refresh_turn (server_env (\<lambda>h. Inl ''down'') toy_token\<lparr>clock_at := \<lambda>h. int (slept h)\<rparr>) toy_config
      (toy_world\<lparr>session := toy_session\<lparr>token_expires_at := int (nanos 60) + 5\<rparr>\<rparr>))) =
    [ClockRead, Slept 5, ClockRead, HttpSent (renewal_request toy_config toy_session)] @ new"
  using token_turn_renews [of "toy_world\<lparr>session := toy_session\<lparr>token_expires_at := int (nanos 60) + 5\<rparr>\<rparr>" 5
      "server_env (\<lambda>h. Inl ''down'') toy_token\<lparr>clock_at := \<lambda>h. int (slept h)\<rparr>" toy_config]
  by (simp add: nanos_def saturating_duration_since_def renewal_request_def toy_world_def toy_session_def)

text \<open>A clock that never runs backwards and stays in the range of instants, and a server whose
  refreshed tokens live at most 60 seconds.\<close>

definition steady_clock :: "'rsa env \<Rightarrow> bool" where
  "steady_clock E \<longleftrightarrow> (\<forall>h h'. clock_at E h \<le> clock_at E (h @ h'))
     \<and> (\<forall>h. 0 \<le> clock_at E h \<and> clock_at E h \<le> int (nanos (2 ^ 62)))"

definition short_lived_tokens :: "'rsa env \<Rightarrow> client_config \<Rightarrow> bool" where
  "short_lived_tokens E c \<longleftrightarrow>
     (\<forall>h rt. rt \<noteq> [] \<longrightarrow>
        (\<exists>tok new_rt ex h'. refresh_token E (cfg_base_url c) rt h = (Ok (tok, new_rt, ex), h') \<and> unat ex \<le> 60))"

definition token_expiring :: "'rsa env \<Rightarrow> world \<Rightarrow> bool" where
  "token_expiring E w \<longleftrightarrow> sess_refresh_token (session w) \<noteq> [] \<and> 0 \<le> token_expires_at (session w)
     \<and> token_expires_at (session w) \<le> clock_at E (trace w) + int (nanos 60)"

lemma short_lived_refresh:
  assumes "short_lived_tokens E c" and "steady_clock E" and "sess_refresh_token (session w) \<noteq> []"
  shows "\<exists>w'. do_refresh_or_reauth E c w = (Ok (), w') \<and> token_expiring E w'
    \<and> trace w' = trace w @ [HttpSent (renewal_request c (session w)), ClockRead]"
proof -
  let ?rt = "sess_refresh_token (session w)"
  let ?h = "trace w @ [HttpSent (renewal_request c (session w))]"
  obtain tok new_rt ex h' where r: "refresh_token E (cfg_base_url c) ?rt (trace w) = (Ok (tok, new_rt, ex), h')"
    and ex: "unat ex \<le> 60"
    using assms(1,3) unfolding short_lived_tokens_def by blast
  then have h': "h' = ?h" and new: "new_rt = None \<or> (\<exists>rt. new_rt = Some rt \<and> rt \<noteq> [])"
    using assms(3) by (auto simp: refresh_token_Ok renewal_request_def split: if_splits)
  let ?t = "clock_at E (?h @ [ClockRead])"
  have t: "0 \<le> ?t" "?t \<le> int (nanos (2 ^ 62))" using assms(2) by (auto simp: steady_clock_def)
  have ex60: "int (unat ex) \<le> 60" using ex by linarith
  then have dur: "int (nanos (unat ex)) \<le> 60000000000" by (simp add: nanos_def)
  have "(?t + int (nanos (unat ex))) div 1000000000 \<le> (int (nanos (2 ^ 62)) + 60000000000) div 1000000000"
    using t(2) dur by (intro zdiv_mono1) linarith+
  also have "\<dots> < 2 ^ 63" by (simp add: nanos_def)
  finally have "instant_add ?t (nanos (unat ex)) = (Ok (?t + int (nanos (unat ex))) :: (vault_error, instant) outcome)"
    by (simp only: instant_add_def Let_def if_True)
  moreover have "net (refresh_token E (cfg_base_url c) ?rt) w = (Ok (tok, new_rt, ex), w\<lparr>trace := ?h\<rparr>)"
    by (simp add: azoom_def r h')
  ultimately show ?thesis
    using new t(1) assms(3) ex60 [simplified]
    by (simp add: do_refresh_or_reauth_def abind_aget outcome_simps)
      (auto simp: abind_def amatch_def amodify_def expiry_instant_def read_clock_def azoom_def Let_def alift_def
        token_expiring_def nanos_def)
qed

lemma short_lived_turn:
  assumes "short_lived_tokens E c" and "steady_clock E" and "\<nexists>h. stop_at E h" and "token_expiring E w"
  shows "\<exists>w'. token_refresh_turn E c w = (Ok Again, w') \<and> token_expiring E w'
    \<and> (\<exists>r. trace w' = trace w @ [ClockRead, Slept 0, ClockRead, HttpSent r, ClockRead])"
proof -
  have mono: "clock_at E h \<le> clock_at E (h @ h')" "0 \<le> clock_at E h" "clock_at E h \<le> int (nanos (2 ^ 62))" for h h'
    using assms(2) by (auto simp: steady_clock_def)
  let ?w1 = "w\<lparr>trace := trace w @ [ClockRead]\<rparr>"
  have exp: "token_expires_at (session w) \<le> clock_at E (trace w @ hs) + int (nanos 60)" for hs
    using assms(4) mono(1) [of "trace w" hs] by (simp add: token_expiring_def)
  have "(- 60000000000) div 1000000000 \<le> (token_expires_at (session w) - 60000000000) div 1000000000"
    using assms(4) by (intro zdiv_mono1) (simp_all add: token_expiring_def)
  then have "token_sleep E w = (Ok 0, ?w1)"
    using assms(4) exp [of "[ClockRead]"]
    by (subst token_sleep_eq) (simp_all add: token_expiring_def saturating_duration_since_def nanos_def)
  note turn = token_turn_awake [OF this]
  let ?w2 = "w\<lparr>trace := trace w @ [ClockRead, Slept 0, ClockRead]\<rparr>"
  have "(clock_at E (trace w @ [ClockRead, Slept 0, ClockRead]) + int (nanos 60)) div 1000000000 < 2 ^ 63"
    using mono(3) [of "trace w @ [ClockRead, Slept 0, ClockRead]"] by (simp add: nanos_def)
  then have "ensure_valid_token E c (w\<lparr>trace := trace w @ [ClockRead, Slept 0]\<rparr>) = do_refresh_or_reauth E c ?w2"
    using exp [of "[ClockRead, Slept 0, ClockRead]"] by (subst ensure_expiring) simp_all
  moreover have "sess_refresh_token (session ?w2) \<noteq> []" using assms(4) by (simp add: token_expiring_def)
  from short_lived_refresh [OF assms(1,2) this] obtain w' where
    "do_refresh_or_reauth E c ?w2 = (Ok (), w')" "token_expiring E w'"
    "trace w' = trace ?w2 @ [HttpSent (renewal_request c (session ?w2)), ClockRead]" by blast
  ultimately show ?thesis
    using assms(3) by (auto simp: turn outcome_simps areturn_def)
qed

text \<open>Tokens that live no longer than 60 seconds make the token task spin: it arms only sleeps of
  length zero and sends a renewal on every turn, for ever, although every renewal succeeds.\<close>

theorem short_token_hot_loop:
  assumes "short_lived_tokens E c" and "steady_clock E" and "\<nexists>h. stop_at E h" and "token_expiring E w"
  shows "start_token_refresh E c w = None
    \<and> (\<exists>new. trace (after_turns (token_refresh_turn E c) n w) = trace w @ new \<and> slept new = 0 \<and> http_count new = n)"
proof -
  have turns: "token_expiring E (after_turns (token_refresh_turn E c) n w)
    \<and> (\<exists>new. trace (after_turns (token_refresh_turn E c) n w) = trace w @ new \<and> slept new = 0 \<and> http_count new = n)" for n
  proof (induction n)
    case (Suc n)
    then show ?case
      using short_lived_turn [OF assms(1-3), of "after_turns (token_refresh_turn E c) n w"] by auto
  qed (simp add: assms(4))
  have "fst (token_refresh_turn E c (after_turns (token_refresh_turn E c) n w)) = Ok Again" for n
    using short_lived_turn [OF assms(1-3), of "after_turns (token_refresh_turn E c) n w"] turns [of n] by auto
  then have "start_token_refresh E c w = None"
    using run_loop_ends [of "token_refresh_turn E c" 0 w]
    by (cases "start_token_refresh E c w") (auto simp: start_token_refresh_def)
  with turns [of n] show ?thesis by blast
qed

theorem short_token_hot_loop_witness:
  "start_token_refresh (server_env (\<lambda>h. Inr ok_response) (toy_token\<lparr>tok_expires_in := 60\<rparr>)\<lparr>clock_at := \<lambda>h. 0\<rparr>)
     toy_config (toy_world\<lparr>session := toy_session\<lparr>token_expires_at := 0\<rparr>\<rparr>) = None"
proof -
  let ?E = "server_env (\<lambda>h. Inr ok_response) (toy_token\<lparr>tok_expires_in := 60\<rparr>)\<lparr>clock_at := \<lambda>h. 0\<rparr>"
  have "short_lived_tokens ?E toy_config"
    unfolding short_lived_tokens_def by (auto simp: refresh_token_Ok)
  moreover have "steady_clock ?E" by (simp add: steady_clock_def)
  moreover have "token_expiring ?E (toy_world\<lparr>session := toy_session\<lparr>token_expires_at := 0\<rparr>\<rparr>)"
    by (simp add: token_expiring_def toy_session_def)
  ultimately show ?thesis by (intro conjunct1 [OF short_token_hot_loop]) simp_all
qed


text \<open>The clock ticks, one sync fails, and the second tick finds the task cancelled.\<close>

definition cancelled_env :: "bytes env" where
  "cancelled_env = down_env\<lparr>stop_at := \<lambda>h. 3 < length h\<rparr>"


end
