(* ===== verification/Refresh.thy ===== *)
theory Refresh
  imports Background
begin

text \<open>
  A refresh, await by await. Other tasks run whenever the code of \<open>src/vault/mod.rs\<close> awaits, so here
  \<open>refresh_vault_cache\<close> (with \<open>ensure_valid_token\<close>, \<open>do_refresh_or_reauth\<close> and \<open>re_authenticate\<close>) is a
  program counter with a step function: one step reads or writes the session under its lock, or
  exchanges requests, and what it has read is carried in the counter. Run without interference the
  steps are the operations of \<open>Client\<close>.
\<close>

section \<open>The program counter\<close>

text \<open>What follows once the token is valid: nothing more, the sync, or the second sync after a 401
  (with the key read before the first).\<close>

datatype after_token = ThenDone | ThenSync | ThenResend symmetric_key

datatype refresh_pc =
    CheckToken after_token
  | RenewToken after_token
  | StoreToken after_token "string \<times> string option \<times> u64"
  | LogIn after_token
  | StoreLogin after_token "string \<times> string \<times> u64 \<times> symmetric_key"
  | ReadToken
  | ReadKey string
  | SendSync string symmetric_key
  | ResendSync symmetric_key
  | StoreVault vault_cache

datatype progress = Running refresh_pc | Finished "(vault_error, unit) outcome"

fun go_on :: "after_token \<Rightarrow> progress" where
  "go_on ThenDone = Finished (Ok ())"
| "go_on ThenSync = Running ReadToken"
| "go_on (ThenResend key) = Running (ResendSync key)"

definition decrypted :: "'rsa env \<Rightarrow> sync_response \<Rightarrow> symmetric_key \<Rightarrow> vault_cache" where
  "decrypted E sync_resp key = fst (decrypt_vault (hash_iter E) (ucd_of E) (prims_of E) sync_resp key)"

text \<open>\<open>ensure_valid_token\<close>: the check.\<close>

definition check_token :: "'rsa env \<Rightarrow> after_token \<Rightarrow> (world, vault_error, progress) action" where
  "check_token E k =
     abind (aget (\<lambda>w. token_expires_at (session w))) (\<lambda>expires_at.
     abind (net (read_clock E)) (\<lambda>now.
     abind (alift (instant_add now (nanos 60))) (\<lambda>t.
       areturn (if expires_at \<le> t then Running (RenewToken k) else go_on k))))"

text \<open>\<open>do_refresh_or_reauth\<close>: the request, and the session it writes.\<close>

definition renew_token :: "'rsa env \<Rightarrow> client_config \<Rightarrow> after_token \<Rightarrow> (world, vault_error, progress) action" where
  "renew_token E c k =
     abind (aget (\<lambda>w. sess_refresh_token (session w))) (\<lambda>current_rt.
       amatch (net (refresh_token E (cfg_base_url c) current_rt))
         (\<lambda>r. areturn (Running (StoreToken k r)))
         (\<lambda>e. areturn (Running (LogIn k))))"

definition store_token ::
    "'rsa env \<Rightarrow> after_token \<Rightarrow> string \<times> string option \<times> u64 \<Rightarrow> (world, vault_error, progress) action" where
  "store_token E k r =
     (case r of (new_at, new_rt, expires_in) \<Rightarrow>
        abind (write_session (\<lambda>s. s\<lparr>access_token := new_at,
            sess_refresh_token := (case new_rt of Some rt \<Rightarrow> rt | None \<Rightarrow> sess_refresh_token s)\<rparr>)) (\<lambda>_.
        abind (expiry_instant E expires_in) (\<lambda>t.
        abind (write_session (\<lambda>s. s\<lparr>token_expires_at := t\<rparr>)) (\<lambda>_.
          areturn (go_on k)))))"

text \<open>\<open>re_authenticate\<close>: the login, and the session it writes.\<close>

definition log_in_again :: "'rsa env \<Rightarrow> client_config \<Rightarrow> after_token \<Rightarrow> (world, vault_error, progress) action" where
  "log_in_again E c k =
     atry VAuth
       (net (authenticate E (cfg_base_url c) (cfg_email c) (cfg_password c) (cfg_client_id c)
               (cfg_client_secret c) (cfg_device_id c)))
       (\<lambda>r. areturn (Running (StoreLogin k r)))"

definition store_login ::
    "'rsa env \<Rightarrow> after_token \<Rightarrow> string \<times> string \<times> u64 \<times> symmetric_key \<Rightarrow> (world, vault_error, progress) action" where
  "store_login E k r =
     (case r of (tok, rt, expires_in, key) \<Rightarrow>
        abind (write_session (\<lambda>s. s\<lparr>access_token := tok, sess_refresh_token := rt\<rparr>)) (\<lambda>_.
        abind (expiry_instant E expires_in) (\<lambda>t.
        abind (write_session (\<lambda>s. s\<lparr>token_expires_at := t, sym_key := key\<rparr>)) (\<lambda>_.
          areturn (go_on k)))))"

text \<open>\<open>refresh_vault_cache\<close>, and the steps of the functions it calls.\<close>

fun refresh_action ::
    "'rsa env \<Rightarrow> client_config \<Rightarrow> refresh_pc \<Rightarrow> (world, vault_error, progress) action" where
  "refresh_action E c (CheckToken k) = check_token E k"
| "refresh_action E c (RenewToken k) = renew_token E c k"
| "refresh_action E c (StoreToken k r) = store_token E k r"
| "refresh_action E c (LogIn k) = log_in_again E c k"
| "refresh_action E c (StoreLogin k r) = store_login E k r"
| "refresh_action E c ReadToken =
     abind (aget (\<lambda>w. access_token (session w))) (\<lambda>tok. areturn (Running (ReadKey tok)))"
| "refresh_action E c (ReadKey tok) =
     abind (aget (\<lambda>w. sym_key (session w))) (\<lambda>key. areturn (Running (SendSync tok key)))"
| "refresh_action E c (SendSync tok key) =
     amatch (net (fetch_sync E (cfg_base_url c) tok))
       (\<lambda>sync_resp. areturn (Running (StoreVault (decrypted E sync_resp key))))
       (\<lambda>e. if e = Unauthorized then areturn (Running (RenewToken (ThenResend key))) else afail (VSync e))"
| "refresh_action E c (ResendSync key) =
     abind (aget (\<lambda>w. access_token (session w))) (\<lambda>tok.
       atry VSync (net (fetch_sync E (cfg_base_url c) tok))
         (\<lambda>sync_resp. areturn (Running (StoreVault (decrypted E sync_resp key)))))"
| "refresh_action E c (StoreVault cache) =
     abind (store_snapshot E cache) (\<lambda>_. areturn (Finished (Ok ())))"

declare check_token_def [simp] renew_token_def [simp] store_token_def [simp] log_in_again_def [simp] store_login_def [simp]

definition refresh_step :: "'rsa env \<Rightarrow> client_config \<Rightarrow> refresh_pc \<Rightarrow> world \<Rightarrow> progress \<times> world" where
  "refresh_step E c pc w =
     (case refresh_action E c pc w of
        (Ok p, w') \<Rightarrow> (p, w')
      | (Err e, w') \<Rightarrow> (Finished (Err e), w')
      | (Panic, w') \<Rightarrow> (Finished Panic, w'))"

section \<open>Running without interference\<close>

text \<open>The number of steps left is bounded: tokens are renewed at most twice, accounts fetched at most
  twice.\<close>

fun token_rank :: "after_token \<Rightarrow> nat" where
  "token_rank ThenDone = 0"
| "token_rank ThenSync = 9"
| "token_rank (ThenResend key) = 2"

fun pc_rank :: "refresh_pc \<Rightarrow> nat" where
  "pc_rank (CheckToken k) = token_rank k + 4"
| "pc_rank (RenewToken k) = token_rank k + 3"
| "pc_rank (LogIn k) = token_rank k + 2"
| "pc_rank (StoreToken k r) = token_rank k + 1"
| "pc_rank (StoreLogin k r) = token_rank k + 1"
| "pc_rank ReadToken = 8"
| "pc_rank (ReadKey tok) = 7"
| "pc_rank (SendSync tok key) = 6"
| "pc_rank (ResendSync key) = 1"
| "pc_rank (StoreVault v) = 0"

lemma go_on_rank: "go_on k = Running q \<Longrightarrow> pc_rank q < token_rank k"
  by (cases k) auto

lemma refresh_action_rank:
  "refresh_action E c pc w = (Ok (Running q), w') \<Longrightarrow> pc_rank q < pc_rank pc"
proof (cases pc)
  case (CheckToken k)
  assume "refresh_action E c pc w = (Ok (Running q), w')"
  then show ?thesis
    using go_on_rank [of k q] by (auto simp: CheckToken action_Ok split: if_splits)
next
  case (StoreToken k r)
  assume "refresh_action E c pc w = (Ok (Running q), w')"
  then show ?thesis
    using go_on_rank [of k q] by (auto simp: StoreToken action_Ok split: prod.splits)
next
  case (StoreLogin k r)
  assume "refresh_action E c pc w = (Ok (Running q), w')"
  then show ?thesis
    using go_on_rank [of k q] by (auto simp: StoreLogin action_Ok split: prod.splits)
qed (auto simp: action_Ok split: if_splits)

lemma refresh_step_Running:
  "refresh_step E c pc w = (Running q, w') \<longleftrightarrow> refresh_action E c pc w = (Ok (Running q), w')"
  by (auto simp: refresh_step_def split: prod.splits outcome.splits)

lemma refresh_step_rank: "refresh_step E c pc w = (Running q, w') \<Longrightarrow> pc_rank q < pc_rank pc"
  by (rule refresh_action_rank) (simp add: refresh_step_Running)

function run_refresh :: "'rsa env \<Rightarrow> client_config \<Rightarrow> refresh_pc \<Rightarrow> world \<Rightarrow> (vault_error, unit) outcome \<times> world"
  where
  "run_refresh E c pc w =
     (case refresh_step E c pc w of
        (Running pc', w') \<Rightarrow> run_refresh E c pc' w'
      | (Finished r, w') \<Rightarrow> (r, w'))"
  by pat_completeness auto
termination
  by (relation "measure (\<lambda>(E, c, pc, w). pc_rank pc)") (simp_all, metis refresh_step_rank)

declare run_refresh.simps [simp del]


text \<open>The rest of the run, as an action.\<close>

fun rest_of_run :: "'rsa env \<Rightarrow> client_config \<Rightarrow> progress \<Rightarrow> (world, vault_error, unit) action" where
  "rest_of_run E c (Running pc) = run_refresh E c pc"
| "rest_of_run E c (Finished r) = alift r"

lemma run_refresh_unfold: "run_refresh E c pc = abind (refresh_action E c pc) (rest_of_run E c)"
proof
  fix w
  show "run_refresh E c pc w = abind (refresh_action E c pc) (rest_of_run E c) w"
    by (subst run_refresh.simps)
      (auto simp: refresh_step_def abind_def amatch_def afail_def alift_def split: prod.split outcome.split progress.split)
qed

lemma abind_amatch: "abind (amatch m f g) k = amatch m (\<lambda>x. abind (f x) k) (\<lambda>e. abind (g e) k)"
  by (rule ext) (simp add: abind_def amatch_def split: prod.split outcome.split)

lemma abind_atry: "abind (atry h m f) k = atry h m (\<lambda>x. abind (f x) k)"
  by (rule ext) (simp add: atry_def abind_def amatch_def afail_def split: prod.split outcome.split)

lemma abind_case_prod: "abind (case p of (x, y) \<Rightarrow> f x y) k = (case p of (x, y) \<Rightarrow> abind (f x y) k)"
  by (simp split: prod.split)

lemma abind_if: "abind (if t then m else m') k = (if t then abind m k else abind m' k)"
  by simp

lemma abind_afail [simp]: "abind (afail e) k = afail e"
  by (rule ext) (simp add: action_defs)

lemmas run_pushes = abind_assoc abind_amatch abind_atry abind_case_prod abind_if

lemma run_store_token:
  "run_refresh E c (StoreToken k r) =
     (case r of (new_at, new_rt, expires_in) \<Rightarrow>
        abind (write_session (\<lambda>s. s\<lparr>access_token := new_at,
            sess_refresh_token := (case new_rt of Some rt \<Rightarrow> rt | None \<Rightarrow> sess_refresh_token s)\<rparr>)) (\<lambda>_.
        abind (expiry_instant E expires_in) (\<lambda>t.
        abind (write_session (\<lambda>s. s\<lparr>token_expires_at := t\<rparr>)) (\<lambda>_. rest_of_run E c (go_on k)))))"
  by (simp add: run_refresh_unfold [of E c "StoreToken k r" for r] run_pushes)

lemma run_log_in:
  "run_refresh E c (LogIn k) = abind (re_authenticate E c) (\<lambda>_. rest_of_run E c (go_on k))"
  by (simp add: run_refresh_unfold [of E c "LogIn k"] run_refresh_unfold [of E c "StoreLogin k r" for r]
      re_authenticate_def run_pushes)

lemma run_renew_token:
  "run_refresh E c (RenewToken k) = abind (do_refresh_or_reauth E c) (\<lambda>_. rest_of_run E c (go_on k))"
  by (simp add: run_refresh_unfold [of E c "RenewToken k"] do_refresh_or_reauth_def run_pushes run_log_in
      run_store_token)

lemma run_check_token:
  "run_refresh E c (CheckToken k) = abind (ensure_valid_token E c) (\<lambda>_. rest_of_run E c (go_on k))"
  by (simp add: run_refresh_unfold [of E c "CheckToken k"] ensure_valid_token_def run_pushes run_renew_token
      if_distrib [of "rest_of_run E c"] cong: if_cong)

lemma abind_unit: "abind m (\<lambda>_. alift (Ok ())) = m"
  by (rule ext) (simp add: abind_def amatch_def afail_def alift_def split: prod.split outcome.split)

lemma run_store_vault: "run_refresh E c (StoreVault v) = store_snapshot E v"
  by (simp add: run_refresh_unfold [of E c "StoreVault v"] run_pushes abind_unit)

lemma run_resend:
  "run_refresh E c (ResendSync key) =
     abind (aget (\<lambda>w. access_token (session w))) (\<lambda>tok.
       atry VSync (net (fetch_sync E (cfg_base_url c) tok)) (\<lambda>r. store_snapshot E (decrypted E r key)))"
  by (simp add: run_refresh_unfold [of E c "ResendSync key"] run_pushes run_store_vault)

lemma run_send_sync:
  "run_refresh E c (SendSync tok key) =
     abind (fetch_sync_renewing E c tok) (\<lambda>r. store_snapshot E (decrypted E r key))"
  by (simp add: run_refresh_unfold [of E c "SendSync tok key"] fetch_sync_renewing_def run_pushes run_store_vault
      run_renew_token run_resend cong: if_cong)

lemma run_read_token:
  "run_refresh E c ReadToken =
     abind (aget (\<lambda>w. access_token (session w))) (\<lambda>tok.
     abind (aget (\<lambda>w. sym_key (session w))) (\<lambda>key. run_refresh E c (SendSync tok key)))"
  by (simp add: run_refresh_unfold [of E c ReadToken] run_refresh_unfold [of E c "ReadKey tok" for tok] run_pushes)

lemma run_sync: "run_refresh E c (CheckToken ThenSync) = refresh_vault_cache E c"
  by (simp add: run_check_token run_read_token run_send_sync refresh_vault_cache_def decrypted_def)

section \<open>What one step does\<close>

text \<open>Time passes, and the snapshot gets a new date or keeps its own.\<close>

definition moves_on :: "'rsa env \<Rightarrow> world \<Rightarrow> world \<Rightarrow> bool" where
  "moves_on E w w' \<longleftrightarrow> (\<exists>new. trace w' = trace w @ new)
     \<and> (last_refresh_at (session w') = last_refresh_at (session w)
        \<or> last_refresh_at (session w') = clock_at E (trace w'))"

lemma moves_on_frame:
  "frames snapshot m \<Longrightarrow> adds trace R m \<Longrightarrow> moves_on E w (snd (m w))"
  using framesD [of snapshot m w] addsD [of trace R m w] by (auto simp: moves_on_def snapshot_def)

lemma trace_moves: "moves_on E w (w\<lparr>trace := trace w @ es\<rparr>)"
  by (simp add: moves_on_def)

fun stores :: "refresh_pc \<Rightarrow> bool" where
  "stores (StoreVault v) = True"
| "stores _ = False"

text \<open>Only the last step writes the snapshot.\<close>

lemma refresh_action_frames: "\<not> stores pc \<Longrightarrow> frames snapshot (refresh_action E c pc)"
  by (cases pc) (simp_all, (intro frame_rules; simp add: snapshot_def)+)

lemma refresh_action_quiet: "adds trace quiet (refresh_action E c pc)"
  by (cases pc) (simp_all add: store_snapshot_def expiry_instant_def fetch_sync_def, (intro quiet_rules; simp)+)

lemma snd_refresh_step: "snd (refresh_step E c pc w) = snd (refresh_action E c pc w)"
  by (simp add: refresh_step_def split: prod.split outcome.split)

lemma store_step: "refresh_step E c (StoreVault v) w = (Finished (Ok ()), snd (store_snapshot E v w))"
  by (simp add: refresh_step_def outcome_simps store_snapshot_eq areturn_def)

lemma refresh_step_snapshot:
  assumes "refresh_step E c pc w = (p, w')"
  shows "(\<exists>v. pc = StoreVault v \<and> p = Finished (Ok ()) \<and> snapshot w' = (Some v, clock_at E (trace w')))
    \<or> \<not> stores pc \<and> snapshot w' = snapshot w"
proof (cases "stores pc")
  case True
  then obtain v where "pc = StoreVault v" by (cases pc) auto
  with assms show ?thesis by (auto simp: store_step store_snapshot_eq snapshot_def)
next
  case False
  with assms framesD [OF refresh_action_frames [OF False], of E c w] snd_refresh_step [of E c pc w]
  show ?thesis by simp
qed

lemma refresh_step_moves: "refresh_step E c pc w = (p, w') \<Longrightarrow> moves_on E w w'"
  using refresh_step_snapshot [of E c pc w p w'] addsD [OF refresh_action_quiet [of E c pc], of w]
    snd_refresh_step [of E c pc w]
  by (auto simp: moves_on_def snapshot_def)

text \<open>A refresh that is to sync finishes without error only by storing a snapshot.\<close>

fun syncs :: "refresh_pc \<Rightarrow> bool" where
  "syncs (CheckToken k) = (k \<noteq> ThenDone)"
| "syncs (RenewToken k) = (k \<noteq> ThenDone)"
| "syncs (StoreToken k r) = (k \<noteq> ThenDone)"
| "syncs (LogIn k) = (k \<noteq> ThenDone)"
| "syncs (StoreLogin k r) = (k \<noteq> ThenDone)"
| "syncs _ = True"

lemma go_on_syncs: "k \<noteq> ThenDone \<Longrightarrow> \<exists>q. go_on k = Running q \<and> syncs q"
  by (cases k) auto

lemma refresh_action_syncs:
  assumes "refresh_action E c pc w = (Ok p, w')" and "syncs pc"
  shows "(\<exists>q. p = Running q \<and> syncs q) \<or> p = Finished (Ok ()) \<and> stores pc"
proof (cases pc)
  case (CheckToken k)
  then show ?thesis using assms go_on_syncs [of k] by (auto simp: action_Ok)
next
  case (StoreToken k r)
  then show ?thesis using assms go_on_syncs [of k] by (auto simp: action_Ok split: prod.splits)
next
  case (StoreLogin k r)
  then show ?thesis using assms go_on_syncs [of k] by (auto simp: action_Ok split: prod.splits)
qed (use assms in \<open>auto simp: action_Ok split: if_splits\<close>)

lemma refresh_step_syncs:
  assumes "refresh_step E c pc w = (p, w')" and "syncs pc"
  shows "(p = Finished (Ok ()) \<longrightarrow> stores pc) \<and> (\<forall>q. p = Running q \<longrightarrow> syncs q)"
proof (cases "\<exists>p'. refresh_action E c pc w = (Ok p', w') \<and> p' = p")
  case True
  then show ?thesis using refresh_action_syncs [OF _ assms(2), of E c w p w'] by auto
next
  case False
  then show ?thesis using assms(1) by (auto simp: refresh_step_def split: prod.splits outcome.splits)
qed

text \<open>A snapshot about to be stored is well formed.\<close>

fun pc_wf :: "'rsa env \<Rightarrow> refresh_pc \<Rightarrow> bool" where
  "pc_wf E (StoreVault v) = cache_wf (ucd_of E) v"
| "pc_wf E _ = True"

lemma go_on_wf: "Running q = go_on k \<Longrightarrow> pc_wf E q"
  by (cases k) auto

lemma refresh_step_wf: "refresh_step E c pc w = (Running q, w') \<Longrightarrow> pc_wf E q"
  unfolding refresh_step_Running
  by (cases pc) (auto simp: action_Ok decrypted_def decrypt_vault_wf dest: go_on_wf split: if_splits prod.splits)

lemma refresh_step_initialized:
  "refresh_step E c pc w = (p, w') \<Longrightarrow> pc_wf E pc \<Longrightarrow> initialized E (session w) \<Longrightarrow> initialized E (session w')"
  using refresh_step_snapshot [of E c pc w p w'] by (auto simp: snapshot_def initialized_def)

section \<open>Properties\<close>

text \<open>C13. The await-by-await model of a refresh implements the operations of the client: run without
  interference from the check of the token, its steps do what \<open>refresh_vault_cache\<close> does (with the
  sync to follow) and what \<open>ensure_valid_token\<close> does (with nothing to follow), for every server,
  errors and panics included.\<close>

theorem refresh_steps_refine:
  "run_refresh E c (CheckToken ThenSync) w = refresh_vault_cache E c w
   \<and> run_refresh E c (CheckToken ThenDone) w = ensure_valid_token E c w"
  by (simp add: run_sync, simp add: run_check_token abind_unit)

end
