(* ===== verification/Concurrency.thy ===== *)
theory Concurrency
  imports Refresh
begin

text \<open>
  Reconciles run concurrently and share one client. Here several callers of \<open>fetch_secrets\<close> interleave
  with each other and with the token and re-sync tasks, at the points where the code awaits: a caller
  misses, queues for \<open>refresh_lock\<close>, checks the cooldown under it, refreshes (the steps of \<open>Refresh\<close>),
  releases the lock, and looks up again; the tasks refresh without the lock.
\<close>

section \<open>Callers\<close>

text \<open>Where a call is: \<open>Missed\<close> waits for the lock with the error of its first attempt; \<open>Checking\<close> and
  \<open>Refreshing\<close> hold it; \<open>Retrying\<close> has released it after a refresh.\<close>

datatype call =
    Idle
  | Missed "secret_request list" vault_error
  | Checking "secret_request list" vault_error
  | Refreshing "secret_request list" vault_error refresh_pc
  | Retrying "secret_request list"
  | Returned "(vault_error, string list) outcome"

fun in_section :: "call \<Rightarrow> bool" where
  "in_section (Checking r e) = True"
| "in_section (Refreshing r e pc) = True"
| "in_section _ = False"

fun past_check :: "call \<Rightarrow> bool" where
  "past_check (Refreshing r e pc) = True"
| "past_check _ = False"

text \<open>The background tasks; a panic ends one for good.\<close>

datatype background = TokenTask | ResyncTask

datatype activity = Asleep | Working refresh_pc | Dead

text \<open>The refresh of the token task is \<open>ensure_valid_token\<close>, that of the re-sync task \<open>refresh_vault_cache\<close>.\<close>

definition token_task_refresh :: refresh_pc where
  "token_task_refresh = CheckToken ThenDone"

definition resync_task_refresh :: refresh_pc where
  "resync_task_refresh = CheckToken ThenSync"

fun task_start :: "background \<Rightarrow> refresh_pc" where
  "task_start TokenTask = token_task_refresh"
| "task_start ResyncTask = resync_task_refresh"

declare token_task_refresh_def [simp] resync_task_refresh_def [simp]

fun task_after :: "progress \<Rightarrow> activity" where
  "task_after (Running pc) = Working pc"
| "task_after (Finished Panic) = Dead"
| "task_after (Finished _) = Asleep"

text \<open>\<open>refreshed_at\<close> records when callers stored a snapshot, latest first; the code keeps no such list.\<close>

record callers =
  shared :: world
  holder :: "nat option"
  call_of :: "nat \<Rightarrow> call"
  task_of :: "background \<Rightarrow> activity"
  refreshed_at :: "instant list"

definition goto :: "nat \<Rightarrow> call \<Rightarrow> callers \<Rightarrow> callers" where
  "goto i p s = s\<lparr>call_of := (call_of s)(i := p)\<rparr>"

text \<open>The first attempt, and the cooldown check: what a caller does next.\<close>

definition first_attempt :: "'rsa env \<Rightarrow> secret_request list \<Rightarrow> world \<Rightarrow> call" where
  "first_attempt E reqs w =
     (case try_fetch_secrets E (session w) reqs of
        Err e \<Rightarrow> if stale_miss e then Missed reqs e else Returned (Err e)
      | r \<Rightarrow> Returned r)"

definition in_cooldown :: "'rsa env \<Rightarrow> client_config \<Rightarrow> world \<Rightarrow> bool" where
  "in_cooldown E c w \<longleftrightarrow>
     saturating_duration_since (clock_at E (trace w @ [ClockRead])) (last_refresh_at (session w)) < min_refresh_interval c"

text \<open>After a step of its refresh a caller goes on with it, or drops the guard of the lock (also by an
  error or a panic) and looks up again, returns the error of its first attempt, or unwinds.\<close>

fun resume :: "secret_request list \<Rightarrow> vault_error \<Rightarrow> progress \<Rightarrow> call" where
  "resume reqs e (Running pc) = Refreshing reqs e pc"
| "resume reqs e (Finished (Ok u)) = Retrying reqs"
| "resume reqs e (Finished (Err e')) = Returned (Err e)"
| "resume reqs e (Finished Panic) = Returned Panic"

definition advance ::
    "nat \<Rightarrow> secret_request list \<Rightarrow> vault_error \<Rightarrow> progress \<Rightarrow> world \<Rightarrow> callers \<Rightarrow> callers" where
  "advance i reqs e p w s = goto i (resume reqs e p)
     (s\<lparr>shared := w, holder := (case p of Running _ \<Rightarrow> holder s | Finished _ \<Rightarrow> None),
        refreshed_at := (if p = Finished (Ok ()) then last_refresh_at (session w) # refreshed_at s else refreshed_at s)\<rparr>)"

inductive call_step :: "'rsa env \<Rightarrow> client_config \<Rightarrow> callers \<Rightarrow> callers \<Rightarrow> bool" for E c where
  call: "call_of s i = Idle \<Longrightarrow> call_step E c s (goto i (first_attempt E reqs (shared s)) s)"
| lock: "call_of s i = Missed reqs e \<Longrightarrow> holder s = None \<Longrightarrow>
    call_step E c s (goto i (Checking reqs e) (s\<lparr>holder := Some i\<rparr>))"
| skip: "call_of s i = Checking reqs e \<Longrightarrow> in_cooldown E c (shared s) \<Longrightarrow>
    call_step E c s (goto i (Returned (Err e))
      (s\<lparr>holder := None, shared := shared s\<lparr>trace := trace (shared s) @ [ClockRead]\<rparr>\<rparr>))"
| due: "call_of s i = Checking reqs e \<Longrightarrow> \<not> in_cooldown E c (shared s) \<Longrightarrow>
    call_step E c s (goto i (Refreshing reqs e (CheckToken ThenSync))
      (s\<lparr>shared := shared s\<lparr>trace := trace (shared s) @ [ClockRead]\<rparr>\<rparr>))"
| refresh: "call_of s i = Refreshing reqs e pc \<Longrightarrow> refresh_step E c pc (shared s) = (p, w') \<Longrightarrow>
    call_step E c s (advance i reqs e p w' s)"
| again: "call_of s i = Retrying reqs \<Longrightarrow>
    call_step E c s (goto i (Returned (try_fetch_secrets E (session (shared s)) reqs)) s)"
| finish: "call_of s i = Returned r \<Longrightarrow> call_step E c s (goto i Idle s)"
| wake: "task_of s b = Asleep \<Longrightarrow> call_step E c s (s\<lparr>task_of := (task_of s)(b := Working (task_start b))\<rparr>)"
| work: "task_of s b = Working pc \<Longrightarrow> refresh_step E c pc (shared s) = (p, w') \<Longrightarrow>
    call_step E c s (s\<lparr>shared := w', task_of := (task_of s)(b := task_after p)\<rparr>)"
| elsewhere: "call_step E c s (s\<lparr>shared := shared s\<lparr>trace := trace (shared s) @ es\<rparr>\<rparr>)"

inductive_cases call_stepE: "call_step E c s t"

text \<open>No call has been made yet.\<close>

definition no_calls :: "world \<Rightarrow> callers" where
  "no_calls w = \<lparr>shared = w, holder = None, call_of = (\<lambda>i. Idle), task_of = (\<lambda>b. Asleep), refreshed_at = []\<rparr>"

definition starting :: "callers \<Rightarrow> bool" where
  "starting s \<longleftrightarrow> holder s = None \<and> refreshed_at s = [] \<and> (\<forall>i. call_of s i = Idle) \<and> (\<forall>b. task_of s b = Asleep)"

lemma starting_no_calls [simp]: "starting (no_calls w)"
  by (simp add: starting_def no_calls_def)

lemma goto_sel [simp]:
  "shared (goto i p s) = shared s" "holder (goto i p s) = holder s" "refreshed_at (goto i p s) = refreshed_at s"
  "task_of (goto i p s) = task_of s" "call_of (goto i p s) j = (if j = i then p else call_of s j)"
  by (simp_all add: goto_def)

lemma goto_fun: "call_of (goto i p s) = (call_of s)(i := p)"
  by (simp add: goto_def)

lemma advance_sel [simp]:
  "shared (advance i reqs e p w s) = w" "task_of (advance i reqs e p w s) = task_of s"
  "holder (advance i reqs e p w s) = (case p of Running _ \<Rightarrow> holder s | Finished _ \<Rightarrow> None)"
  "call_of (advance i reqs e p w s) = (call_of s)(i := resume reqs e p)"
  "refreshed_at (advance i reqs e p w s) =
     (if p = Finished (Ok ()) then last_refresh_at (session w) # refreshed_at s else refreshed_at s)"
  by (simp_all add: advance_def goto_fun)

lemma advance_Running [simp]: "advance i reqs e p w2 (advance i reqs e (Running q) w1 s) = advance i reqs e p w2 s"
  by (simp add: advance_def goto_def cong: progress.case_cong)

section \<open>Mutual exclusion\<close>

definition lock_inv :: "callers \<Rightarrow> bool" where
  "lock_inv s \<longleftrightarrow> (\<forall>i. in_section (call_of s i) \<longleftrightarrow> holder s = Some i)"

lemma first_attempt_outside [simp]:
  "\<not> in_section (first_attempt E reqs w)" "\<not> past_check (first_attempt E reqs w)"
  by (simp_all add: first_attempt_def split: outcome.split)

text \<open>One caller moves: it keeps the lock as it is, or leaves the section, or enters it when the lock is
  free.\<close>

lemma lock_inv_move:
  assumes "lock_inv s" and "call_of t = (call_of s)(i := p)" and "in_section p \<longleftrightarrow> holder t = Some i"
    and "holder t = holder s \<or> in_section (call_of s i) \<and> holder t = None \<or> holder s = None \<and> holder t = Some i"
  shows "lock_inv t"
  unfolding lock_inv_def
proof
  fix j
  show "in_section (call_of t j) \<longleftrightarrow> holder t = Some j"
  proof (cases "j = i")
    case True
    then show ?thesis using assms(2,3) by simp
  next
    case False
    then have "call_of t j = call_of s j" "in_section (call_of s j) \<longleftrightarrow> holder s = Some j"
      using assms(1,2) by (simp_all add: lock_inv_def)
    moreover have "in_section (call_of s i) \<longleftrightarrow> holder s = Some i" using assms(1) by (simp add: lock_inv_def)
    ultimately show ?thesis using assms(4) False by auto
  qed
qed

lemma lock_inv_shared: "lock_inv (s\<lparr>shared := w\<rparr>) \<longleftrightarrow> lock_inv s"
  by (simp add: lock_inv_def)

lemma lock_inv_holder: "lock_inv s \<Longrightarrow> in_section (call_of s i) \<Longrightarrow> holder s = Some i"
  by (simp add: lock_inv_def)

lemma lock_inv_outside: "lock_inv s \<Longrightarrow> \<not> in_section (call_of s i) \<Longrightarrow> holder s \<noteq> Some i"
  by (simp add: lock_inv_def)

lemma in_section_resume: "in_section (resume reqs e p) \<longleftrightarrow> (\<exists>q. p = Running q)"
  by (cases "(reqs, e, p)" rule: resume.cases) simp_all

lemma lock_inv_step:
  assumes "lock_inv s" and "call_step E c s t"
  shows "lock_inv t"
  using assms(2)
proof cases
  case (call i reqs)
  show ?thesis unfolding call(1)
    by (rule lock_inv_move [OF assms(1) goto_fun]) (use lock_inv_outside [OF assms(1), of i] call(2) in simp_all)
next
  case (lock i reqs e)
  show ?thesis unfolding lock(1)
    by (rule lock_inv_move [OF assms(1), where i = i and p = "Checking reqs e"]) (simp_all add: goto_fun lock)
next
  case (skip i reqs e)
  show ?thesis unfolding skip(1)
    by (rule lock_inv_move [OF assms(1), where i = i and p = "Returned (Err e)"]) (simp_all add: goto_fun skip)
next
  case (due i reqs e)
  show ?thesis unfolding due(1)
    by (rule lock_inv_move [OF assms(1), where i = i and p = "Refreshing reqs e (CheckToken ThenSync)"])
      (use lock_inv_holder [OF assms(1), of i] due(2) in \<open>simp_all add: goto_fun\<close>)
next
  case (refresh i reqs e pc p w')
  show ?thesis unfolding refresh(1)
    by (rule lock_inv_move [OF assms(1), where i = i and p = "resume reqs e p"])
      (use lock_inv_holder [OF assms(1), of i] refresh(2) in
        \<open>simp_all add: in_section_resume split: progress.split\<close>)
next
  case (again i reqs)
  show ?thesis unfolding again(1)
    by (rule lock_inv_move [OF assms(1) goto_fun]) (use lock_inv_outside [OF assms(1), of i] again(2) in simp_all)
next
  case (finish i r)
  show ?thesis unfolding finish(1)
    by (rule lock_inv_move [OF assms(1) goto_fun]) (use lock_inv_outside [OF assms(1), of i] finish(2) in simp_all)
qed (use assms(1) in \<open>simp_all add: lock_inv_def\<close>)

section \<open>The session\<close>

text \<open>The errors callers wait with are misses, the snapshots about to be stored are well formed, and
  the session has one.\<close>

fun call_ok :: "'rsa env \<Rightarrow> call \<Rightarrow> bool" where
  "call_ok E (Missed reqs e) = stale_miss e"
| "call_ok E (Checking reqs e) = stale_miss e"
| "call_ok E (Refreshing reqs e pc) = (stale_miss e \<and> pc_wf E pc)"
| "call_ok E (Returned r) = (r \<noteq> Err NotInitialized)"
| "call_ok E _ = True"

fun task_ok :: "'rsa env \<Rightarrow> activity \<Rightarrow> bool" where
  "task_ok E (Working pc) = pc_wf E pc"
| "task_ok E _ = True"

definition session_inv :: "'rsa env \<Rightarrow> callers \<Rightarrow> bool" where
  "session_inv E s \<longleftrightarrow>
     initialized E (session (shared s)) \<and> (\<forall>i. call_ok E (call_of s i)) \<and> (\<forall>b. task_ok E (task_of s b))"

lemma stale_miss_not_uninitialized: "stale_miss e \<Longrightarrow> e \<noteq> NotInitialized"
  by (auto simp: stale_miss_def)

lemma first_attempt_ok: "initialized E (session w) \<Longrightarrow> call_ok E (first_attempt E reqs w)"
  using try_fetch_initialized [of E "session w" reqs] by (auto simp: first_attempt_def split: outcome.split)

lemma resume_ok:
  assumes "refresh_step E c pc w = (p, w')" and "stale_miss e"
  shows "call_ok E (resume reqs e p)"
  using assms(2) refresh_step_wf [of E c pc w _ w'] assms(1) stale_miss_not_uninitialized
  by (cases "(reqs, e, p)" rule: resume.cases) auto

lemma task_after_ok: "refresh_step E c pc w = (p, w') \<Longrightarrow> task_ok E (task_after p)"
  using refresh_step_wf [of E c pc w _ w'] by (cases p rule: task_after.cases) auto

lemma session_inv_step:
  assumes "session_inv E s" and "call_step E c s t"
  shows "session_inv E t"
proof -
  have inv: "initialized E (session (shared s))" "\<And>i. call_ok E (call_of s i)" "\<And>b. task_ok E (task_of s b)"
    using assms(1) by (simp_all add: session_inv_def)
  note calls = inv(2) [of i for i] and tasks = inv(3) [of b for b]
  from assms(2) show ?thesis
  proof cases
    case (call i reqs)
    then show ?thesis using inv first_attempt_ok [OF inv(1)] by (simp add: session_inv_def)
  next
    case (lock i reqs e)
    then show ?thesis using inv calls [of i] by (simp add: session_inv_def)
  next
    case (skip i reqs e)
    then show ?thesis using inv calls [of i] stale_miss_not_uninitialized [of e] by (simp add: session_inv_def)
  next
    case (due i reqs e)
    then show ?thesis using inv calls [of i] by (simp add: session_inv_def)
  next
    case (refresh i reqs e pc p w')
    have "call_ok E (resume reqs e p)" "initialized E (session w')"
      using calls [of i] refresh(2) resume_ok [OF refresh(3)] refresh_step_initialized [OF refresh(3)] inv(1)
      by simp_all
    then show ?thesis using inv by (simp add: session_inv_def refresh(1))
  next
    case (again i reqs)
    then show ?thesis using inv try_fetch_initialized [OF inv(1)] by (simp add: session_inv_def)
  next
    case (finish i r)
    then show ?thesis using inv by (simp add: session_inv_def)
  next
    case (wake b)
    then show ?thesis using inv by (cases b) (simp_all add: session_inv_def)
  next
    case (work b pc p w')
    have "task_ok E (task_after p)" "initialized E (session w')"
      using tasks [of b] work(2) task_after_ok [OF work(3)] refresh_step_initialized [OF work(3)] inv(1) by simp_all
    then show ?thesis using inv by (simp add: session_inv_def work(1))
  next
    case (elsewhere es)
    then show ?thesis using inv by (simp add: session_inv_def)
  qed
qed

interpretation session_system: invariant_system
  "\<lambda>s. starting s \<and> initialized E (session (shared s))" "call_step E c" "session_inv E"
  for E :: "'rsa env" and c
proof
  show "session_inv E s" if "starting s \<and> initialized E (session (shared s))" for s
    using that by (simp add: session_inv_def starting_def)
qed (rule session_inv_step)

text \<open>A refresh of a caller is going to store a snapshot.\<close>

fun call_syncs :: "call \<Rightarrow> bool" where
  "call_syncs (Refreshing reqs e pc) = syncs pc"
| "call_syncs _ = True"

definition sync_inv :: "callers \<Rightarrow> bool" where
  "sync_inv s \<longleftrightarrow> (\<forall>i. call_syncs (call_of s i))"

lemma sync_inv_step:
  assumes "sync_inv s" and "call_step E c s t"
  shows "sync_inv t"
  using assms(2)
proof cases
  case (refresh i reqs e pc p w')
  have "syncs pc" using assms(1) refresh(2) by (metis sync_inv_def call_syncs.simps(1))
  then have "call_syncs (resume reqs e p)"
    using refresh_step_syncs [OF refresh(3)] by (cases "(reqs, e, p)" rule: resume.cases) auto
  then show ?thesis using assms(1) by (simp add: sync_inv_def refresh(1))
qed (use assms(1) in \<open>simp_all add: sync_inv_def first_attempt_def split: outcome.split\<close>)

section \<open>The cooldown\<close>

text \<open>Stored snapshots of callers are a cooldown apart; a caller past the check is a cooldown after the
  latest of them, and so is any caller that will pass it, since \<open>last_refresh_at\<close> never goes back.\<close>

definition cooldown_inv :: "'rsa env \<Rightarrow> client_config \<Rightarrow> callers \<Rightarrow> bool" where
  "cooldown_inv E c s \<longleftrightarrow>
     sorted_wrt (\<lambda>later earlier. earlier + int (min_refresh_interval c) \<le> later) (refreshed_at s)
     \<and> last_refresh_at (session (shared s)) \<le> clock_at E (trace (shared s))
     \<and> (\<forall>t \<in> set (refreshed_at s). t \<le> last_refresh_at (session (shared s))
          \<and> (\<forall>i. past_check (call_of s i) \<longrightarrow> t + int (min_refresh_interval c) \<le> clock_at E (trace (shared s))))"

definition call_inv :: "'rsa env \<Rightarrow> client_config \<Rightarrow> callers \<Rightarrow> bool" where
  "call_inv E c s \<longleftrightarrow> lock_inv s \<and> sync_inv s \<and> cooldown_inv E c s"

lemma past_check_section: "past_check p \<Longrightarrow> in_section p"
  by (cases p) simp_all

lemma cooldown_inv_move:
  assumes "steady_clock E" and "cooldown_inv E c s" and "moves_on E (shared s) (shared t)"
    and "refreshed_at t = refreshed_at s"
    and "\<And>i. past_check (call_of t i) \<Longrightarrow> past_check (call_of s i)
      \<or> last_refresh_at (session (shared s)) + int (min_refresh_interval c) \<le> clock_at E (trace (shared t))"
  shows "cooldown_inv E c t"
proof -
  let ?last = "\<lambda>s. last_refresh_at (session (shared s))" and ?now = "\<lambda>s. clock_at E (trace (shared s))"
  have s: "?last s \<le> ?now s" "\<And>x. x \<in> set (refreshed_at s) \<Longrightarrow> x \<le> ?last s"
    "\<And>x i. x \<in> set (refreshed_at s) \<Longrightarrow> past_check (call_of s i) \<Longrightarrow> x + int (min_refresh_interval c) \<le> ?now s"
    using assms(2) by (auto simp: cooldown_inv_def)
  have time: "?now s \<le> ?now t" using assms(1,3) by (auto simp: steady_clock_def moves_on_def)
  then have last: "?last t \<le> ?now t" "?last s \<le> ?last t"
    using assms(3) s(1) by (auto simp: moves_on_def)
  have "x \<le> ?last t \<and> (\<forall>i. past_check (call_of t i) \<longrightarrow> x + int (min_refresh_interval c) \<le> ?now t)"
    if x: "x \<in> set (refreshed_at s)" for x
  proof (intro conjI allI impI)
    show "x \<le> ?last t" using s(2) [OF x] last(2) by simp
    fix i
    assume "past_check (call_of t i)"
    from assms(5) [OF this] show "x + int (min_refresh_interval c) \<le> ?now t"
      using s(2) [OF x] s(3) [OF x] time by force
  qed
  with assms(2,4) last(1) show ?thesis by (simp add: cooldown_inv_def)
qed

lemma not_in_cooldown:
  "\<not> in_cooldown E c w \<Longrightarrow> last_refresh_at (session w) \<le> clock_at E (trace w @ [ClockRead]) \<Longrightarrow>
     last_refresh_at (session w) + int (min_refresh_interval c) \<le> clock_at E (trace w @ [ClockRead])"
  by (simp add: in_cooldown_def saturating_duration_since_def)

lemma past_check_resume: "past_check (resume reqs e p) \<longleftrightarrow> (\<exists>q. p = Running q)"
  by (cases "(reqs, e, p)" rule: resume.cases) simp_all

text \<open>The holder of the lock stores a snapshot.\<close>

lemma cooldown_inv_store:
  assumes "steady_clock E" and "call_inv E c s" and "call_of s i = Refreshing reqs e pc"
    and "refresh_step E c pc (shared s) = (Finished (Ok ()), w')"
  shows "cooldown_inv E c (advance i reqs e (Finished (Ok ())) w' s)"
proof -
  let ?gap = "int (min_refresh_interval c)"
  have inv: "lock_inv s" "sync_inv s" "cooldown_inv E c s" using assms(2) by (simp_all add: call_inv_def)
  have "holder s = Some i" using lock_inv_holder [OF inv(1), of i] assms(3) by simp
  then have alone: "\<not> past_check (call_of s j)" if "j \<noteq> i" for j
    using inv(1) that past_check_section [of "call_of s j"] by (auto simp: lock_inv_def)
  have s: "sorted_wrt (\<lambda>later earlier. earlier + ?gap \<le> later) (refreshed_at s)"
    "\<And>x. x \<in> set (refreshed_at s) \<Longrightarrow> x + ?gap \<le> clock_at E (trace (shared s))"
    using inv(3) assms(3) by (auto simp: cooldown_inv_def) (metis past_check.simps(1))
  have "call_syncs (Refreshing reqs e pc)" using inv(2) assms(3) by (metis sync_inv_def)
  then have "stores pc" using refresh_step_syncs [OF assms(4)] by simp
  then have now: "last_refresh_at (session w') = clock_at E (trace w')"
    using refresh_step_snapshot [OF assms(4)] by (auto simp: snapshot_def)
  have "clock_at E (trace (shared s)) \<le> clock_at E (trace w')"
    using refresh_step_moves [OF assms(4)] assms(1) by (auto simp: moves_on_def steady_clock_def)
  then have "x + ?gap \<le> clock_at E (trace w')" if "x \<in> set (refreshed_at s)" for x
    using s(2) [OF that] by simp
  with s(1) now alone show ?thesis by (fastforce simp: cooldown_inv_def)
qed

lemma cooldown_inv_step:
  assumes "steady_clock E" and "call_inv E c s" and "call_step E c s t"
  shows "cooldown_inv E c t"
proof -
  have inv: "cooldown_inv E c s" using assms(2) by (simp add: call_inv_def)
  note move = cooldown_inv_move [OF assms(1) inv]
  from assms(3) show ?thesis
  proof cases
    case (call i reqs)
    show ?thesis by (rule move) (auto simp: call(1) moves_on_def split: if_splits)
  next
    case (lock i reqs e)
    show ?thesis by (rule move) (auto simp: lock(1) moves_on_def split: if_splits)
  next
    case (skip i reqs e)
    show ?thesis by (rule move) (auto simp: skip(1) moves_on_def split: if_splits)
  next
    case (due i reqs e)
    have "last_refresh_at (session (shared s)) \<le> clock_at E (trace (shared s) @ [ClockRead])"
      using inv assms(1) by (auto simp: cooldown_inv_def steady_clock_def intro: order_trans)
    note later = not_in_cooldown [OF due(3) this]
    show ?thesis by (rule move) (use later in \<open>auto simp: due(1) moves_on_def split: if_splits\<close>)
  next
    case (refresh i reqs e pc p w')
    show ?thesis
    proof (cases "p = Finished (Ok ())")
      case True
      then show ?thesis using cooldown_inv_store [OF assms(1,2) refresh(2)] refresh(1,3) by simp
    next
      case False
      show ?thesis
        by (rule move) (use False refresh_step_moves [OF refresh(3)] refresh(2) in
          \<open>auto simp: refresh(1) past_check_resume split: if_splits\<close>)
    qed
  next
    case (again i reqs)
    show ?thesis by (rule move) (auto simp: again(1) moves_on_def split: if_splits)
  next
    case (finish i r)
    show ?thesis by (rule move) (auto simp: finish(1) moves_on_def split: if_splits)
  next
    case (wake b)
    show ?thesis by (rule move) (auto simp: wake(1) moves_on_def)
  next
    case (work b pc p w')
    show ?thesis by (rule move) (use refresh_step_moves [OF work(3)] in \<open>auto simp: work(1)\<close>)
  next
    case (elsewhere es)
    show ?thesis by (rule move) (simp_all add: elsewhere trace_moves)
  qed
qed

lemma call_inv_step:
  assumes "steady_clock E" and "call_inv E c s" and "call_step E c s t"
  shows "call_inv E c t"
  using cooldown_inv_step [OF assms] lock_inv_step [OF _ assms(3)] sync_inv_step [OF _ assms(3)] assms(2)
  by (simp add: call_inv_def)

interpretation lock_system: invariant_system starting "call_step E c" lock_inv for E :: "'rsa env" and c
proof
  show "starting s \<Longrightarrow> lock_inv s" for s by (simp add: starting_def lock_inv_def)
qed (rule lock_inv_step)

interpretation cooldown_system: invariant_system
  "\<lambda>s. starting s \<and> last_refresh_at (session (shared s)) \<le> clock_at E (trace (shared s))"
  "\<lambda>s t. steady_clock E \<and> call_step E c s t" "call_inv E c"
  for E :: "'rsa env" and c
proof
  show "call_inv E c s"
    if "starting s \<and> last_refresh_at (session (shared s)) \<le> clock_at E (trace (shared s))" for s
    using that lock_system.inv_init [of s]
    by (simp add: call_inv_def sync_inv_def cooldown_inv_def starting_def)
qed (auto intro: call_inv_step)

end
