(* ===== verification/Interleavings.thy ===== *)
theory Interleavings
  imports Concurrency
begin

text \<open>
  Runs of the interleaving model of \<open>Concurrency\<close>: a caller in the section of \<open>refresh_lock\<close> can always
  go through it, a caller alone does what \<open>fetch_secrets\<close> does, and concrete runs of two callers and of
  a caller with the re-sync task show what their interleavings can do.
\<close>

section \<open>A refresh of a caller\<close>

abbreviation runs :: "'rsa env \<Rightarrow> client_config \<Rightarrow> callers \<Rightarrow> callers \<Rightarrow> bool" where
  "runs E c \<equiv> rtranclp (call_step E c)"

text \<open>Whatever the others are about to do, a caller in the section can go through to the end of its
  refresh, and whoever waits for the lock can then have it.\<close>

lemma caller_refreshes:
  assumes "call_of s i = Refreshing reqs e pc" and "run_refresh E c pc (shared s) = (r, w')"
  shows "runs E c s (advance i reqs e (Finished r) w' s)"
  using assms
proof (induction E c pc "shared s" arbitrary: s rule: run_refresh.induct)
  case (1 E c pc)
  obtain p w1 where step: "refresh_step E c pc (shared s) = (p, w1)" by (cases "refresh_step E c pc (shared s)")
  note first = call_step.refresh [OF 1(2) step]
  show ?case
  proof (cases p)
    case (Running q)
    have "run_refresh E c q w1 = (r, w')"
      using 1(3) step Running by (subst (asm) run_refresh.simps) simp
    then have "runs E c (advance i reqs e p w1 s) (advance i reqs e (Finished r) w' (advance i reqs e p w1 s))"
      by (intro "1.hyps") (use step Running in simp_all)
    then show ?thesis using first Running by (simp add: converse_rtranclp_into_rtranclp)
  next
    case (Finished r')
    then have "(r', w1) = (r, w')" using 1(3) step by (subst (asm) run_refresh.simps) simp
    then show ?thesis using first Finished by simp
  qed
qed

lemma section_released:
  assumes "lock_inv s" and "holder s = Some j"
  shows "\<exists>t p. runs E c s t \<and> holder t = None \<and> call_of t = (call_of s)(j := p)
    \<and> (\<exists>reqs r. p = Retrying reqs \<or> p = Returned r)"
proof -
  have refreshing: "\<exists>t p. runs E c s t \<and> holder t = None \<and> call_of t = (call_of s)(j := p)
      \<and> (\<exists>reqs r. p = Retrying reqs \<or> p = Returned r)"
    if at: "call_of s j = Refreshing reqs e pc" for s reqs e pc
  proof -
    obtain r w' where "run_refresh E c pc (shared s) = (r, w')" by (cases "run_refresh E c pc (shared s)")
    from caller_refreshes [OF at this] show ?thesis
      by (intro exI [of _ "advance j reqs e (Finished r) w' s"] exI [of _ "resume reqs e (Finished r)"])
        (cases r; simp)
  qed
  have "in_section (call_of s j)" using assms by (simp add: lock_inv_def)
  then consider reqs e where "call_of s j = Checking reqs e" | reqs e pc where "call_of s j = Refreshing reqs e pc"
    by (cases "call_of s j") auto
  then show ?thesis
  proof cases
    case (1 reqs e)
    show ?thesis
    proof (cases "in_cooldown E c (shared s)")
      case True
      let ?t = "goto j (Returned (Err e))
          (s\<lparr>holder := None, shared := shared s\<lparr>trace := trace (shared s) @ [ClockRead]\<rparr>\<rparr>)"
      have "call_step E c s ?t" using call_step.skip [of s j, OF 1 True] .
      then show ?thesis by (intro exI [of _ ?t] exI [of _ "Returned (Err e)"]) (simp add: goto_fun r_into_rtranclp)
    next
      case False
      let ?t = "goto j (Refreshing reqs e (CheckToken ThenSync))
          (s\<lparr>shared := shared s\<lparr>trace := trace (shared s) @ [ClockRead]\<rparr>\<rparr>)"
      have "call_step E c s ?t" using call_step.due [of s j, OF 1 False] .
      moreover obtain t p where "runs E c ?t t" "holder t = None" "call_of t = (call_of ?t)(j := p)"
          "\<exists>reqs r. p = Retrying reqs \<or> p = Returned r"
        using refreshing [of ?t reqs e "CheckToken ThenSync"] by auto
      ultimately show ?thesis
        by (intro exI [of _ t] exI [of _ p]) (auto simp: goto_fun intro: converse_rtranclp_into_rtranclp)
    qed
  qed (rule refreshing)
qed

text \<open>A call that has the lock, waits for the free lock, or is past it, can return.\<close>

lemma retry_returns: "call_of s i = Retrying reqs \<Longrightarrow> \<exists>t r. runs E c s t \<and> call_of t i = Returned r"
  using call_step.again [of s i reqs E c] by (intro exI conjI, rule r_into_rtranclp) simp_all

lemma section_returns:
  assumes "lock_inv s" and "holder s = Some i"
  shows "\<exists>t r. runs E c s t \<and> call_of t i = Returned r"
proof -
  obtain t p where t: "runs E c s t" "call_of t i = p" "\<exists>reqs r. p = Retrying reqs \<or> p = Returned r"
    using section_released [OF assms, of E c] by auto
  then show ?thesis using retry_returns [of t i _ E c] by (meson rtranclp_trans)
qed

lemma free_lock_returns:
  assumes "lock_inv s" and "holder s = None" and "call_of s i = Missed reqs e"
  shows "\<exists>t r. runs E c s t \<and> call_of t i = Returned r"
proof -
  let ?s = "goto i (Checking reqs e) (s\<lparr>holder := Some i\<rparr>)"
  have step: "call_step E c s ?s" using call_step.lock [of s i, OF assms(3,2)] .
  from section_returns [OF lock_inv_step [OF assms(1) step], of i E c] step show ?thesis
    by (auto intro: converse_rtranclp_into_rtranclp)
qed

section \<open>One caller alone\<close>

text \<open>A step of caller \<open>i\<close>, up to its return: the only steps that change where its call is.\<close>

definition lone_step :: "'rsa env \<Rightarrow> client_config \<Rightarrow> nat \<Rightarrow> callers \<Rightarrow> callers \<Rightarrow> bool" where
  "lone_step E c i s t \<longleftrightarrow>
     call_step E c s t \<and> call_of t i \<noteq> call_of s i \<and> (\<nexists>r. call_of s i = Returned r)"

lemma fetch_secrets_stale:
  "try_fetch_secrets E (session w) reqs = Err e \<Longrightarrow> stale_miss e \<Longrightarrow>
    fetch_secrets E c reqs w =
     (let w1 = w\<lparr>trace := trace w @ [ClockRead]\<rparr> in
      if in_cooldown E c w then (Err e, w1)
      else (case refresh_vault_cache E c w1 of
              (Ok u, w') \<Rightarrow> (try_fetch_secrets E (session w') reqs, w')
            | (Err e', w') \<Rightarrow> (Err e, w')
            | (Panic, w') \<Rightarrow> (Panic, w')))"
  by (auto simp: fetch_secrets_def after_miss_def refresh_if_due_eq in_cooldown_def abind_def amatch_def afail_def
      areturn_def Let_def split: prod.split outcome.split)

text \<open>What a call still returns, and the world it leaves, when only its own steps follow.\<close>

fun conclude ::
    "'rsa env \<Rightarrow> secret_request list \<Rightarrow> vault_error \<Rightarrow> (vault_error, unit) outcome \<times> world
       \<Rightarrow> (vault_error, string list) outcome \<times> world" where
  "conclude E reqs e (Ok u, w) = (try_fetch_secrets E (session w) reqs, w)"
| "conclude E reqs e (Err e', w) = (Err e, w)"
| "conclude E reqs e (Panic, w) = (Panic, w)"

definition check_then ::
    "'rsa env \<Rightarrow> client_config \<Rightarrow> secret_request list \<Rightarrow> vault_error \<Rightarrow> world
       \<Rightarrow> (vault_error, string list) outcome \<times> world" where
  "check_then E c reqs e w =
     (let w1 = w\<lparr>trace := trace w @ [ClockRead]\<rparr> in
      if in_cooldown E c w then (Err e, w1) else conclude E reqs e (run_refresh E c (CheckToken ThenSync) w1))"

fun pending ::
    "'rsa env \<Rightarrow> client_config \<Rightarrow> call \<Rightarrow> world \<Rightarrow> (vault_error, string list) outcome \<times> world" where
  "pending E c (Missed reqs e) w = check_then E c reqs e w"
| "pending E c (Checking reqs e) w = check_then E c reqs e w"
| "pending E c (Refreshing reqs e pc) w = conclude E reqs e (run_refresh E c pc w)"
| "pending E c (Retrying reqs) w = (try_fetch_secrets E (session w) reqs, w)"
| "pending E c (Returned r) w = (r, w)"
| "pending E c Idle w = (Panic, w)"

lemma pending_first: "pending E c (first_attempt E reqs w) w = fetch_secrets E c reqs w"
proof (cases "\<exists>e. try_fetch_secrets E (session w) reqs = Err e \<and> stale_miss e")
  case True
  then obtain e where e: "try_fetch_secrets E (session w) reqs = Err e" "stale_miss e" by blast
  obtain r w' where r: "refresh_vault_cache E c (w\<lparr>trace := trace w @ [ClockRead]\<rparr>) = (r, w')"
    by (cases "refresh_vault_cache E c (w\<lparr>trace := trace w @ [ClockRead]\<rparr>)")
  show ?thesis
    by (cases r) (simp_all add: fetch_secrets_stale [OF e] first_attempt_def e check_then_def run_sync r Let_def)
next
  case False
  then have "fetch_secrets E c reqs w = (try_fetch_secrets E (session w) reqs, w)"
    by (intro vault_client.fetch_other) blast
  with False show ?thesis by (auto simp: first_attempt_def split: outcome.split)
qed

lemma pending_resume:
  "refresh_step E c pc w = (p, w') \<Longrightarrow>
     pending E c (resume reqs e p) w' = conclude E reqs e (run_refresh E c pc w)"
  by (subst run_refresh.simps, cases "(reqs, e, p)" rule: resume.cases) simp_all

text \<open>The invariant of a lone caller, which holds the lock exactly while it is in the section.\<close>

definition lone_inv ::
    "'rsa env \<Rightarrow> client_config \<Rightarrow> nat \<Rightarrow> (vault_error, string list) outcome \<times> world \<Rightarrow> callers \<Rightarrow> bool" where
  "lone_inv E c i goal s \<longleftrightarrow> call_of s i \<noteq> Idle \<and> pending E c (call_of s i) (shared s) = goal
     \<and> holder s = (if in_section (call_of s i) then Some i else None)"

lemma resume_not_Idle [simp]: "resume reqs e p \<noteq> Idle"
  by (cases "(reqs, e, p)" rule: resume.cases) simp_all

lemma resume_section: "in_section (resume reqs e p) \<longleftrightarrow> (case p of Running _ \<Rightarrow> True | Finished _ \<Rightarrow> False)"
  by (cases "(reqs, e, p)" rule: resume.cases) simp_all

lemma lone_inv_step:
  assumes "lone_inv E c i goal s" and "lone_step E c i s t"
  shows "lone_inv E c i goal t"
proof -
  have inv: "call_of s i \<noteq> Idle" "pending E c (call_of s i) (shared s) = goal"
    "holder s = (if in_section (call_of s i) then Some i else None)"
    using assms(1) by (simp_all add: lone_inv_def)
  have step: "call_step E c s t" "call_of t i \<noteq> call_of s i" and going: "\<nexists>r. call_of s i = Returned r"
    using assms(2) by (simp_all add: lone_step_def)
  show ?thesis
    using step(1)
  proof cases
    case (call j reqs)
    then show ?thesis using step(2) inv(1) by (cases "j = i") simp_all
  next
    case (lock j reqs e)
    then show ?thesis using step(2) inv by (cases "j = i") (simp_all add: lone_inv_def)
  next
    case (skip j reqs e)
    then show ?thesis using step(2) inv by (cases "j = i") (simp_all add: lone_inv_def check_then_def Let_def)
  next
    case (due j reqs e)
    then show ?thesis using step(2) inv by (cases "j = i") (simp_all add: lone_inv_def check_then_def Let_def)
  next
    case (refresh j reqs e pc p w')
    then show ?thesis
      using step(2) inv pending_resume [OF refresh(3)]
      by (cases "j = i") (auto simp: lone_inv_def resume_section split: progress.split)
  next
    case (again j reqs)
    then show ?thesis using step(2) inv by (cases "j = i") (simp_all add: lone_inv_def)
  next
    case (finish j r)
    then show ?thesis using step(2) going by (cases "j = i") simp_all
  qed (use step(2) in simp_all)
qed

text \<open>Every step of a caller brings it nearer to its return, and before that it is never stuck.\<close>

fun call_rank :: "call \<Rightarrow> nat" where
  "call_rank Idle = 20"
| "call_rank (Missed reqs e) = 19"
| "call_rank (Checking reqs e) = 18"
| "call_rank (Refreshing reqs e pc) = pc_rank pc + 2"
| "call_rank (Retrying reqs) = 1"
| "call_rank (Returned r) = 0"

lemma resume_rank: "refresh_step E c pc w = (p, w') \<Longrightarrow> call_rank (resume reqs e p) < pc_rank pc + 2"
  using refresh_step_rank [of E c pc w _ w'] by (cases "(reqs, e, p)" rule: resume.cases) auto

lemma first_attempt_rank: "call_rank (first_attempt E reqs w) < 20"
  by (simp add: first_attempt_def split: outcome.split)

lemma lone_step_rank:
  assumes "lone_step E c i s t"
  shows "call_rank (call_of t i) < call_rank (call_of s i)"
proof -
  have step: "call_step E c s t" "call_of t i \<noteq> call_of s i" and going: "\<nexists>r. call_of s i = Returned r"
    using assms by (simp_all add: lone_step_def)
  show ?thesis
    using step(1)
  proof cases
    case (call j reqs)
    then show ?thesis using step(2) first_attempt_rank [of E reqs] by (cases "j = i") simp_all
  next
    case (lock j reqs e)
    then show ?thesis using step(2) by (cases "j = i") simp_all
  next
    case (skip j reqs e)
    then show ?thesis using step(2) by (cases "j = i") simp_all
  next
    case (due j reqs e)
    then show ?thesis using step(2) by (cases "j = i") simp_all
  next
    case (refresh j reqs e pc p w')
    then show ?thesis using step(2) resume_rank [OF refresh(3)] by (cases "j = i") simp_all
  next
    case (again j reqs)
    then show ?thesis using step(2) by (cases "j = i") simp_all
  next
    case (finish j r)
    then show ?thesis using step(2) going by (cases "j = i") simp_all
  qed (use step(2) in simp_all)
qed

lemma resume_moves: "refresh_step E c pc w = (p, w') \<Longrightarrow> resume reqs e p \<noteq> Refreshing reqs e pc"
  using resume_rank [of E c pc w p w' reqs e] by auto

lemma lone_step_goes:
  assumes "lone_inv E c i goal s" and "\<nexists>r. call_of s i = Returned r"
  shows "\<exists>t. lone_step E c i s t"
proof (cases "call_of s i")
  case (Missed reqs e)
  then have "holder s = None" using assms(1) by (simp add: lone_inv_def)
  from call_step.lock [OF Missed this] Missed assms(2) show ?thesis by (fastforce simp: lone_step_def)
next
  case (Checking reqs e)
  then show ?thesis
    using call_step.skip [OF Checking] call_step.due [OF Checking] assms(2)
    by (cases "in_cooldown E c (shared s)") (fastforce simp: lone_step_def)+
next
  case (Refreshing reqs e pc)
  obtain p w' where step: "refresh_step E c pc (shared s) = (p, w')" by (cases "refresh_step E c pc (shared s)")
  from call_step.refresh [OF Refreshing step] resume_moves [OF step] Refreshing assms(2) show ?thesis
    by (fastforce simp: lone_step_def)
next
  case (Retrying reqs)
  from call_step.again [OF this] Retrying assms(2) show ?thesis by (fastforce simp: lone_step_def)
qed (use assms in \<open>simp_all add: lone_inv_def\<close>)

section \<open>Two callers\<close>

text \<open>A client whose snapshot is empty and a minute old, a clock that stands still, and two callers
  that ask for the item \<open>db\<close>, which the server has.\<close>

definition still_env :: "bytes env" where
  "still_env = toy_env\<lparr>clock_at := \<lambda>h. 0\<rparr>"

definition stale_world :: world where
  "stale_world = \<lparr>trace = [], session = toy_session\<lparr>vault := Some \<lparr>items = [], orgs_by_name = index_orgs toy_ucd []\<rparr>,
     last_refresh_at := - int (nanos 60)\<rparr>\<rparr>"

definition db_request :: "secret_request list" where
  "db_request = [\<lparr>req_name = ''db'', req_vault = None\<rparr>]"

lemma steady_still: "steady_clock still_env"
  by (simp add: steady_clock_def still_env_def)

lemma db_misses:
  "vault s = Some \<lparr>items = [], orgs_by_name = orgs\<rparr> \<Longrightarrow>
     try_fetch_secrets still_env s db_request = Err (VLookup (NotFound ''db'' 0))"
  by (simp add: try_fetch_secrets_def db_request_def lookup_secret_def lookup_item_def find_item_def)

lemma db_hits: "vault s = Some toy_cache \<Longrightarrow> try_fetch_secrets still_env s db_request = Ok [''personal'']"
proof -
  have low: "to_lowercase toy_ucd ''db'' = ''db''"
    by (simp add: to_lowercase_ascii is_ascii_def ascii_lower_def)
  have "lookup_item toy_ucd toy_cache ''db'' None = Ok (demo_item ''c1'' None ''db'' ''personal'')"
    by (simp add: lookup_item_def toy_cache_def find_item_def in_scope_def demo_item_def low)
  then show "vault s = Some toy_cache \<Longrightarrow> ?thesis"
    by (simp add: try_fetch_secrets_def db_request_def lookup_secret_def still_env_def toy_env_def)
      (simp add: extract_secret_def demo_item_def)
qed

lemma refresh_at_rest:
  fixes c w
  defines "sent \<equiv> HttpSent (sync_request (cfg_base_url c) (access_token (session w)))"
  assumes "\<And>h. clock_at E h = 0" and "int (nanos 60) < token_expires_at (session w)"
    and "http_answer E (trace w @ [ClockRead, sent]) = Inr resp" "is_success resp" "json_body (de_sync E) resp = Ok sync"
  shows "refresh_vault_cache E c w = (Ok (), w\<lparr>trace := trace w @ [ClockRead, sent, ClockRead],
      session := (session w)\<lparr>vault := Some (decrypted E sync (sym_key (session w))), last_refresh_at := 0\<rparr>\<rparr>)"
proof -
  let ?w1 = "w\<lparr>trace := trace w @ [ClockRead]\<rparr>" and ?w2 = "w\<lparr>trace := trace w @ [ClockRead, sent]\<rparr>"
  have "ensure_valid_token E c w = (Ok (), ?w1)"
    using assms(2,3)
    by (simp add: ensure_valid_token_def action_Ok azoom_Ok read_clock_def Let_def instant_add_def nanos_def)
  moreover have "fetch_sync E (cfg_base_url c) (access_token (session w)) (trace w @ [ClockRead]) = (Ok sync, trace ?w2)"
    using assms(4-6) by (simp add: fetch_sync_Ok sent_def)
  then have "fetch_sync_renewing E c (access_token (session w)) ?w1 = (Ok sync, ?w2)"
    by (simp add: fetch_sync_renewing_def amatch_def azoom_def areturn_def)
  ultimately show ?thesis
    using assms(2) by (simp add: refresh_vault_cache_def outcome_simps abind_aget store_snapshot_eq decrypted_def)
qed

text \<open>Callers 0 and 1, and the re-sync task.\<close>

definition scene :: "call \<Rightarrow> call \<Rightarrow> activity \<Rightarrow> nat option \<Rightarrow> world \<Rightarrow> instant list \<Rightarrow> callers" where
  "scene p q k h w rs = \<lparr>shared = w, holder = h, call_of = (\<lambda>_. Idle)(0 := p, 1 := q),
     task_of = (\<lambda>_. Asleep)(ResyncTask := k), refreshed_at = rs\<rparr>"

lemma scene_sel [simp]:
  "shared (scene p q k h w rs) = w" "holder (scene p q k h w rs) = h"
  "call_of (scene p q k h w rs) 0 = p" "call_of (scene p q k h w rs) (Suc 0) = q"
  "task_of (scene p q k h w rs) ResyncTask = k" "refreshed_at (scene p q k h w rs) = rs"
  "goto 0 p' (scene p q k h w rs) = scene p' q k h w rs"
  "goto (Suc 0) q' (scene p q k h w rs) = scene p q' k h w rs"
  "(scene p q k h w rs)\<lparr>holder := h'\<rparr> = scene p q k h' w rs"
  "(scene p q k h w rs)\<lparr>shared := w'\<rparr> = scene p q k h w' rs"
  "(scene p q k h w rs)\<lparr>task_of := (task_of (scene p0 q0 k0 h0 w0 rs0))(ResyncTask := k')\<rparr> = scene p q k' h w rs"
  "(scene p q k h w rs)\<lparr>refreshed_at := rs'\<rparr> = scene p q k h w rs'"
  by (auto simp: scene_def goto_def)

lemma scene_start: "no_calls w = scene Idle Idle Asleep None w []"
  by (auto simp: no_calls_def scene_def)

lemma scene_asks:
  "runs E c (scene Idle q k h w rs) (scene (first_attempt E reqs w) q k h w rs)"
  "runs E c (scene p Idle k h w rs) (scene p (first_attempt E reqs w) k h w rs)"
  using call_step.call [where s = "scene Idle q k h w rs" and i = 0 and E = E and c = c and reqs = reqs]
    call_step.call [where s = "scene p Idle k h w rs" and i = 1 and E = E and c = c and reqs = reqs] by auto

lemma scene_locks:
  "runs E c (scene (Missed reqs e) q k None w rs) (scene (Checking reqs e) q k (Some 0) w rs)"
  "runs E c (scene p (Missed reqs e) k None w rs) (scene p (Checking reqs e) k (Some 1) w rs)"
  using call_step.lock [where s = "scene (Missed reqs e) q k None w rs" and i = 0 and E = E and c = c]
    call_step.lock [where s = "scene p (Missed reqs e) k None w rs" and i = 1 and E = E and c = c] by auto

lemma scene_refreshes:
  assumes "\<not> in_cooldown E c w"
    and "refresh_vault_cache E c (w\<lparr>trace := trace w @ [ClockRead]\<rparr>) = (Ok (), w')"
  shows "runs E c (scene (Checking reqs e) q k h w rs) (scene (Retrying reqs) q k None w' (last_refresh_at (session w') # rs))"
proof -
  let ?s = "scene (Refreshing reqs e (CheckToken ThenSync)) q k h (w\<lparr>trace := trace w @ [ClockRead]\<rparr>) rs"
  have "call_step E c (scene (Checking reqs e) q k h w rs) ?s"
    using call_step.due [where s = "scene (Checking reqs e) q k h w rs" and i = 0 and E = E and c = c] assms(1) by simp
  moreover have "runs E c ?s (advance 0 reqs e (Finished (Ok ())) w' ?s)"
    using caller_refreshes [of ?s 0 reqs e "CheckToken ThenSync" E c "Ok ()" w'] assms(2) by (simp add: run_sync)
  ultimately show ?thesis
    by (simp add: advance_def converse_rtranclp_into_rtranclp)
qed

abbreviation db_missed :: call where
  "db_missed \<equiv> Missed db_request (VLookup (NotFound ''db'' 0))"

abbreviation db_checking :: call where
  "db_checking \<equiv> Checking db_request (VLookup (NotFound ''db'' 0))"

text \<open>Both miss, caller 0 refreshes, and caller 1 is about to check the cooldown.\<close>

lemma two_callers_run:
  "\<exists>w. runs still_env toy_config (no_calls stale_world)
      (scene (Retrying db_request) db_checking Asleep (Some 1) w [0])
    \<and> vault (session w) = Some toy_cache \<and> last_refresh_at (session w) = 0"
proof -
  have miss: "first_attempt still_env db_request stale_world = db_missed"
    by (simp add: first_attempt_def stale_world_def db_misses stale_miss_def is_stale_miss_def)
  have due: "\<not> in_cooldown still_env toy_config stale_world"
    by (simp add: in_cooldown_def stale_world_def still_env_def saturating_duration_since_def toy_config_def nanos_def)
  have "decrypted still_env demo_sync demo_key = toy_cache"
    by (simp add: decrypted_def still_env_def toy_env_def demo_vault toy_cache_def)
  then obtain w where w: "refresh_vault_cache still_env toy_config (stale_world\<lparr>trace := trace stale_world @ [ClockRead]\<rparr>)
      = (Ok (), w)" "vault (session w) = Some toy_cache" "last_refresh_at (session w) = 0"
    using refresh_at_rest [of still_env "stale_world\<lparr>trace := [ClockRead]\<rparr>" toy_config ok_response demo_sync]
    by (simp add: still_env_def toy_env_def stale_world_def toy_session_def nanos_def)
  note run = scene_asks(1) [of still_env toy_config Idle Asleep None stale_world "[]" db_request]
  note run = rtranclp_trans [OF run scene_asks(2) [where reqs = db_request], unfolded miss]
  note run = rtranclp_trans [OF run scene_locks(1)]
  note run = rtranclp_trans [OF run scene_refreshes [OF due w(1)]]
  note run = rtranclp_trans [OF run scene_locks(2)]
  from run show ?thesis using w(2,3) by (auto simp: scene_start)
qed

section \<open>A caller and the re-sync task\<close>

text \<open>The server's first answer does not have the item yet.\<close>

definition lagging_env :: "bytes env" where
  "lagging_env = still_env\<lparr>
     http_answer := \<lambda>h. Inr (ok_response\<lparr>http_body_read := Inr (if http_count h \<le> 1 then [0] else [])\<rparr>),
     de_sync := \<lambda>b. Inr (if b = [0] then demo_sync\<lparr>ciphers := []\<rparr> else demo_sync)\<rparr>"

definition old_cache :: vault_cache where
  "old_cache = decrypted lagging_env (demo_sync\<lparr>ciphers := []\<rparr>) demo_key"

lemma old_cache_items: "items old_cache = []"
  by (simp add: old_cache_def decrypted_def decrypt_vault_def Let_def split: prod.split)

lemma lagging_try_fetch: "try_fetch_secrets lagging_env = try_fetch_secrets still_env"
proof -
  have "lookup_secret lagging_env = lookup_secret still_env"
    by (intro ext) (simp add: lookup_secret_def lagging_env_def)
  then show ?thesis by (intro ext) (simp add: try_fetch_secrets_def)
qed

lemma scene_wakes: "runs E c (scene p q Asleep h w rs) (scene p q (Working (CheckToken ThenSync)) h w rs)"
  using call_step.wake [where s = "scene p q Asleep h w rs" and b = ResyncTask and E = E and c = c] by simp

lemma scene_works:
  "refresh_step E c pc w = (r, w') \<Longrightarrow> runs E c (scene p q (Working pc) h w rs) (scene p q (task_after r) h w' rs)"
  using call_step.work [where s = "scene p q (Working pc) h w rs" and b = ResyncTask and E = E and c = c
      and pc = pc and p = r and w' = w'] by simp

lemma old_cache_misses: "vault s = Some old_cache \<Longrightarrow>
    try_fetch_secrets lagging_env s db_request = Err (VLookup (NotFound ''db'' 0))"
  using db_misses [of s "orgs_by_name old_cache"] by (simp add: lagging_try_fetch flip: old_cache_items)

text \<open>The task has fetched the account and is about to store it; then caller 0 misses.\<close>

lemma resync_fetches_old:
  "\<exists>h. runs lagging_env toy_config (no_calls stale_world)
      (scene db_missed Idle (Working (StoreVault old_cache)) None (stale_world\<lparr>trace := h\<rparr>) [])
    \<and> http_count h = 1"
proof -
  let ?w1 = "stale_world\<lparr>trace := [ClockRead]\<rparr>"
  let ?h = "[ClockRead, HttpSent (sync_request (cfg_base_url toy_config) ''at'')]"
  have miss: "first_attempt lagging_env db_request (stale_world\<lparr>trace := ?h\<rparr>) = db_missed"
    by (simp add: first_attempt_def stale_world_def lagging_try_fetch db_misses stale_miss_def is_stale_miss_def)
  have s1: "refresh_step lagging_env toy_config (CheckToken ThenSync) stale_world = (Running ReadToken, ?w1)"
    by (simp add: refresh_step_Running action_Ok azoom_Ok read_clock_def Let_def instant_add_def nanos_def
        lagging_env_def still_env_def stale_world_def toy_session_def)
  have s2: "refresh_step lagging_env toy_config ReadToken ?w1 = (Running (ReadKey ''at''), ?w1)"
    by (simp add: refresh_step_Running action_Ok stale_world_def toy_session_def)
  have s3: "refresh_step lagging_env toy_config (ReadKey ''at'') ?w1 = (Running (SendSync ''at'' demo_key), ?w1)"
    by (simp add: refresh_step_Running action_Ok stale_world_def toy_session_def)
  have "fetch_sync lagging_env (cfg_base_url toy_config) ''at'' [ClockRead] = (Ok (demo_sync\<lparr>ciphers := []\<rparr>), ?h)"
    by (simp add: fetch_sync_Ok lagging_env_def is_success_def json_body_def ok_response_def)
  then have s4: "refresh_step lagging_env toy_config (SendSync ''at'' demo_key) ?w1 =
      (Running (StoreVault old_cache), stale_world\<lparr>trace := ?h\<rparr>)"
    by (simp add: refresh_step_Running action_Ok azoom_Ok old_cache_def)
  note run = scene_wakes [of lagging_env toy_config Idle Idle None stale_world "[]"]
  note run = rtranclp_trans [OF run scene_works [OF s1], simplified]
  note run = rtranclp_trans [OF run scene_works [OF s2], simplified]
  note run = rtranclp_trans [OF run scene_works [OF s3], simplified]
  note run = rtranclp_trans [OF run scene_works [OF s4], simplified]
  note run = rtranclp_trans [OF run scene_asks(1) [where reqs = db_request], unfolded miss]
  from run show ?thesis by (intro exI [of _ ?h]) (simp add: scene_start)
qed

text \<open>Caller 0 refreshes and returns the item.\<close>

lemma caller_gets_new:
  assumes "http_count h = 1"
  shows "\<exists>h' w'. runs lagging_env toy_config (scene db_missed Idle k None (stale_world\<lparr>trace := h\<rparr>) [])
      (scene (Returned (Ok [''personal''])) Idle k None w' [0])
    \<and> w' = stale_world\<lparr>trace := h', session := (session stale_world)\<lparr>vault := Some toy_cache, last_refresh_at := 0\<rparr>\<rparr>"
proof -
  let ?w = "stale_world\<lparr>trace := h\<rparr>"
  have due: "\<not> in_cooldown lagging_env toy_config ?w"
    by (simp add: in_cooldown_def stale_world_def lagging_env_def still_env_def saturating_duration_since_def
        toy_config_def nanos_def)
  have "decrypted lagging_env demo_sync demo_key = toy_cache"
    by (simp add: decrypted_def lagging_env_def still_env_def toy_env_def demo_vault toy_cache_def)
  then obtain h' w' where w': "refresh_vault_cache lagging_env toy_config (?w\<lparr>trace := trace ?w @ [ClockRead]\<rparr>) = (Ok (), w')"
    "w' = stale_world\<lparr>trace := h', session := (session stale_world)\<lparr>vault := Some toy_cache, last_refresh_at := 0\<rparr>\<rparr>"
    using refresh_at_rest [of lagging_env "?w\<lparr>trace := trace ?w @ [ClockRead]\<rparr>" toy_config
        "ok_response\<lparr>http_body_read := Inr []\<rparr>" demo_sync] assms
    by (simp add: lagging_env_def still_env_def stale_world_def toy_session_def nanos_def ok_response_def
        is_success_def json_body_def)
  note run = scene_locks(1) [of lagging_env toy_config db_request "VLookup (NotFound ''db'' 0)" Idle k ?w "[]"]
  note run = rtranclp_trans [OF run scene_refreshes [OF due w'(1)]]
  have again: "call_step lagging_env toy_config (scene (Retrying db_request) Idle k None w' rs)
      (scene (Returned (Ok [''personal''])) Idle k None w' rs)" for rs
    using call_step.again [where s = "scene (Retrying db_request) Idle k None w' rs" and i = 0 and E = lagging_env
        and c = toy_config] w'(2) by (simp add: lagging_try_fetch db_hits)
  from rtranclp_trans [OF run r_into_rtranclp [of "call_step lagging_env toy_config", OF again]] w'(2)
  show ?thesis by (auto intro!: exI [of _ h'])
qed

section \<open>Properties\<close>

text \<open>C12. The step-by-step model of a caller implements \<open>fetch_secrets\<close>: whatever the others wait for, when
  the lock is free and, from the first attempt on, only the steps of this caller are taken, it
  cannot get stuck and cannot go on for ever, and however it goes, when it returns, it returns what
  \<open>fetch_secrets\<close> returns, has left the world as \<open>fetch_secrets\<close> leaves it, and has released the lock.\<close>

theorem lone_caller_refines_fetch_secrets:
  assumes "holder s0 = None" and "rtranclp (lone_step E c i) (goto i (first_attempt E reqs (shared s0)) s0) s"
  shows "(\<forall>r. call_of s i = Returned r \<longrightarrow> (r, shared s) = fetch_secrets E c reqs (shared s0) \<and> holder s = None)
    \<and> ((\<nexists>r. call_of s i = Returned r) \<longrightarrow> (\<exists>t. lone_step E c i s t))
    \<and> wfP (\<lambda>t s. lone_step E c i s t)"
proof -
  let ?goal = "fetch_secrets E c reqs (shared s0)"
  have "first_attempt E reqs (shared s0) \<noteq> Idle"
    by (simp add: first_attempt_def split: outcome.split)
  then have start: "lone_inv E c i ?goal (goto i (first_attempt E reqs (shared s0)) s0)"
    by (simp add: lone_inv_def pending_first assms(1))
  from assms(2) have inv: "lone_inv E c i ?goal s"
    by (induction rule: rtranclp_induct) (auto intro: start lone_inv_step)
  have "wfP (\<lambda>t s. lone_step E c i s t)"
    by (rule wfp_subset [OF wfp_if_convertible_to_nat [of "\<lambda>t s. call_rank (call_of t i) < call_rank (call_of s i)"
          "\<lambda>s. call_rank (call_of s i)"]]) (auto intro: lone_step_rank)
  with inv lone_step_goes [OF inv] show ?thesis by (auto simp: lone_inv_def)
qed

theorem lone_caller_refines_fetch_secrets_witness:
  "\<exists>s r. rtranclp (lone_step still_env toy_config 0) (goto 0 db_missed (no_calls stale_world)) s
     \<and> call_of s 0 = Returned r \<and> (r, shared s) = fetch_secrets still_env toy_config db_request stale_world \<and> holder s = None"
proof -
  let ?step = "lone_step still_env toy_config 0" and ?s0 = "goto 0 db_missed (no_calls stale_world)"
  have "holder (no_calls stale_world) = None" and "shared (no_calls stale_world) = stale_world"
    by (simp_all add: no_calls_def)
  moreover have "first_attempt still_env db_request stale_world = db_missed"
    by (simp add: first_attempt_def stale_world_def db_misses stale_miss_def is_stale_miss_def)
  ultimately have lone: "(\<forall>r. call_of s 0 = Returned r \<longrightarrow>
        (r, shared s) = fetch_secrets still_env toy_config db_request stale_world \<and> holder s = None)
      \<and> ((\<nexists>r. call_of s 0 = Returned r) \<longrightarrow> (\<exists>t. ?step s t)) \<and> wfP (\<lambda>t s. ?step s t)"
    if "rtranclp ?step ?s0 s" for s
    using lone_caller_refines_fetch_secrets [where ?s0.0 = "no_calls stale_world" and s = s and E = still_env
        and c = toy_config and i = 0 and reqs = db_request] that by simp
  have "wfP (\<lambda>t s. ?step s t)" using lone [of ?s0] by blast
  then have "rtranclp ?step ?s0 s \<Longrightarrow> \<exists>t r. rtranclp ?step ?s0 t \<and> call_of t 0 = Returned r" for s
  proof (induction s rule: wfp_induct_rule)
    case (less s)
    then show ?case using lone [OF less(2)] by (meson rtranclp.rtrancl_into_rtrancl)
  qed
  then obtain t r where t: "rtranclp ?step ?s0 t" "call_of t 0 = Returned r" by blast
  from lone [OF t(1)] t show ?thesis by blast
qed

text \<open>C4. However callers and background tasks interleave, at most one caller at a time is between
  the cooldown check and the end of its refresh, and the snapshots that callers store are at least
  one cooldown apart: a batch of simultaneous misses collapses into one successful re-sync per
  cooldown.\<close>

theorem on_demand_refreshes_collapse:
  assumes "rtranclp (call_step E c) (no_calls w) s" and "steady_clock E"
    and "last_refresh_at (session w) \<le> clock_at E (trace w)"
  shows "(\<nexists>i j. in_section (call_of s i) \<and> in_section (call_of s j) \<and> i \<noteq> j)
    \<and> sorted_wrt (\<lambda>later earlier. earlier + int (min_refresh_interval c) \<le> later) (refreshed_at s)"
proof -
  have "rtranclp (\<lambda>s t. steady_clock E \<and> call_step E c s t) (no_calls w) s"
    using assms(1,2) by simp
  then have "call_inv E c s"
    by (rule cooldown_system.reachable_inv [rotated]) (use assms(3) in \<open>simp add: no_calls_def starting_def\<close>)
  then show ?thesis by (auto simp: call_inv_def lock_inv_def cooldown_inv_def)
qed

theorem on_demand_refreshes_collapse_witness:
  "\<exists>s. rtranclp (call_step still_env toy_config) (no_calls stale_world) s \<and> refreshed_at s = [0]
    \<and> in_section (call_of s 1) \<and> (\<nexists>i j. in_section (call_of s i) \<and> in_section (call_of s j) \<and> i \<noteq> j)"
proof -
  obtain w where run: "rtranclp (call_step still_env toy_config) (no_calls stale_world)
      (scene (Retrying db_request) db_checking Asleep (Some 1) w [0])"
    using two_callers_run by blast
  moreover have "last_refresh_at (session stale_world) \<le> clock_at still_env (trace stale_world)"
    by (simp add: stale_world_def still_env_def)
  ultimately show ?thesis using on_demand_refreshes_collapse [OF run steady_still] by (intro exI conjI) auto
qed

text \<open>C39. A caller whose miss coincides with another's refresh is refused although the item is there: it
  waited for the lock while the other stored a snapshot with the item, is then told that the refresh is
  within the cooldown, and returns the error of its first attempt instead of looking again.\<close>

theorem concurrent_miss_returns_stale_error:
  "\<exists>(E :: bytes env) c w s t reqs e vs. rtranclp (call_step E c) (no_calls w) s
     \<and> call_of s 1 = Checking reqs e \<and> try_fetch_secrets E (session (shared s)) reqs = Ok vs
     \<and> call_step E c s t \<and> call_of t 1 = Returned (Err e) \<and> vault (session (shared t)) = vault (session (shared s))"
proof -
  let ?e = "VLookup (NotFound ''db'' 0)"
  obtain w where run: "rtranclp (call_step still_env toy_config) (no_calls stale_world)
      (scene (Retrying db_request) (Checking db_request ?e) Asleep (Some 1) w [0])"
    and w: "vault (session w) = Some toy_cache" "last_refresh_at (session w) = 0"
    using two_callers_run by blast
  let ?s = "scene (Retrying db_request) (Checking db_request ?e) Asleep (Some 1) w [0]"
  have "in_cooldown still_env toy_config w"
    using w(2) by (simp add: in_cooldown_def still_env_def saturating_duration_since_def toy_config_def nanos_def)
  then have step: "call_step still_env toy_config ?s
      (scene (Retrying db_request) (Returned (Err ?e)) Asleep None (w\<lparr>trace := trace w @ [ClockRead]\<rparr>) [0])"
    using call_step.skip [where s = ?s and i = 1 and E = still_env and c = toy_config] by simp
  show ?thesis
    by (intro exI conjI) (rule run, simp, simp add: db_hits w(1), rule step, simp_all)
qed

text \<open>C14. No deadlock: whatever the callers and the background tasks have done, a call that has been made
  can still be brought to an end: the caller that holds the lock can go through its refresh and
  release it, whoever waits can then take it, and no background task is needed for that.\<close>

theorem calls_can_return:
  assumes "rtranclp (call_step E c) (no_calls w) s" and "call_of s i \<noteq> Idle"
  shows "\<exists>t r. rtranclp (call_step E c) s t \<and> call_of t i = Returned r"
proof -
  have inv: "lock_inv s" using assms(1) by (rule lock_system.reachable_inv [rotated]) simp
  consider "in_section (call_of s i)" | reqs e where "call_of s i = Missed reqs e"
    | reqs where "call_of s i = Retrying reqs" | r where "call_of s i = Returned r"
    using assms(2) by (cases "call_of s i") auto
  then show ?thesis
  proof cases
    case 1
    with section_returns [OF inv] lock_inv_holder [OF inv] show ?thesis by blast
  next
    case (2 reqs e)
    show ?thesis
    proof (cases "holder s")
      case None
      from free_lock_returns [OF inv this 2] show ?thesis .
    next
      case (Some j)
      have "\<not> in_section (call_of s i)" using 2 by simp
      then have "i \<noteq> j" using inv Some by (auto simp: lock_inv_def)
      obtain t p where t: "runs E c s t" "holder t = None" "call_of t = (call_of s)(j := p)"
        using section_released [OF inv Some] by blast
      have "rtranclp (call_step E c) (no_calls w) t" using assms(1) t(1) by (rule rtranclp_trans)
      then have "lock_inv t" by (rule lock_system.reachable_inv [rotated]) simp
      moreover have "call_of t i = Missed reqs e" using t(3) \<open>i \<noteq> j\<close> 2 by simp
      ultimately show ?thesis using free_lock_returns [of t i reqs e E c] t(1,2) by (meson rtranclp_trans)
    qed
  qed (use retry_returns in blast)+
qed

theorem calls_can_return_witness:
  "\<exists>s t r. rtranclp (call_step still_env toy_config) (no_calls stale_world) s \<and> call_of s 1 = db_checking
    \<and> rtranclp (call_step still_env toy_config) s t \<and> call_of t 1 = Returned r"
proof -
  obtain w where run: "rtranclp (call_step still_env toy_config) (no_calls stale_world)
      (scene (Retrying db_request) db_checking Asleep (Some 1) w [0])"
    using two_callers_run by blast
  moreover obtain t r where "runs still_env toy_config (scene (Retrying db_request) db_checking Asleep (Some 1) w [0]) t"
      "call_of t 1 = Returned r"
    using calls_can_return [OF run, of 1] by auto
  ultimately show ?thesis by (intro exI [of _ "scene (Retrying db_request) db_checking Asleep (Some 1) w [0]"]
        exI [of _ t] exI [of _ r]) simp
qed

text \<open>C15. The shared session is never found uninitialized: from a client whose first sync succeeded,
  however calls and background refreshes interleave, fail or panic in between, the session keeps a
  usable snapshot and no call returns \<open>NotInitialized\<close>.\<close>

theorem interleaved_calls_initialized:
  assumes "rtranclp (call_step E c) (no_calls w) s" and "initialized E (session w)"
  shows "initialized E (session (shared s)) \<and> call_of s i \<noteq> Returned (Err NotInitialized)"
proof -
  have "session_inv E s"
    using assms(1) by (rule session_system.reachable_inv [rotated]) (use assms(2) in \<open>simp add: no_calls_def starting_def\<close>)
  then show ?thesis by (metis session_inv_def call_ok.simps(4))
qed

theorem interleaved_calls_initialized_witness:
  "\<exists>s. rtranclp (call_step still_env toy_config) (no_calls stale_world) s \<and> refreshed_at s = [0]
    \<and> initialized still_env (session (shared s)) \<and> call_of s 0 \<noteq> Returned (Err NotInitialized)"
proof -
  obtain w where run: "rtranclp (call_step still_env toy_config) (no_calls stale_world)
      (scene (Retrying db_request) db_checking Asleep (Some 1) w [0])"
    using two_callers_run by blast
  moreover have "initialized still_env (session stale_world)"
    by (auto simp: initialized_def stale_world_def still_env_def toy_env_def cache_wf_def)
  ultimately show ?thesis
    using interleaved_calls_initialized [OF run, of 0] by (intro exI conjI) auto
qed

text \<open>C37. The re-sync task does not take \<open>refresh_lock\<close>, so an older account can replace a newer one: the
  task has fetched an account without the item before a caller misses, the caller refreshes and
  returns the item, and then the task stores its account, dated as fresh; the next caller misses
  again and is refused by the cooldown.\<close>

theorem resync_undoes_refresh:
  "\<exists>(E :: bytes env) c w s t u reqs e old vs.
     rtranclp (call_step E c) (no_calls w) s
       \<and> task_of s ResyncTask = Working (StoreVault old) \<and> call_of s 0 = Missed reqs e
     \<and> rtranclp (call_step E c) s t
       \<and> task_of t ResyncTask = Working (StoreVault old) \<and> call_of t 0 = Returned (Ok vs)
       \<and> try_fetch_secrets E (session (shared t)) reqs = Ok vs
     \<and> rtranclp (call_step E c) t u
       \<and> vault (session (shared u)) = Some old \<and> call_of u 1 = Checking reqs e \<and> in_cooldown E c (shared u)"
proof -
  obtain h where h: "runs lagging_env toy_config (no_calls stale_world)
      (scene db_missed Idle (Working (StoreVault old_cache)) None (stale_world\<lparr>trace := h\<rparr>) [])" "http_count h = 1"
    using resync_fetches_old by blast
  obtain h' w' where new: "runs lagging_env toy_config
      (scene db_missed Idle (Working (StoreVault old_cache)) None (stale_world\<lparr>trace := h\<rparr>) [])
      (scene (Returned (Ok [''personal''])) Idle (Working (StoreVault old_cache)) None w' [0])"
    and w': "w' = stale_world\<lparr>trace := h', session := (session stale_world)\<lparr>vault := Some toy_cache, last_refresh_at := 0\<rparr>\<rparr>"
    using caller_gets_new [OF h(2)] by blast
  have hit: "try_fetch_secrets lagging_env (session w') db_request = Ok [''personal'']"
    by (simp add: lagging_try_fetch db_hits w')
  let ?w'' = "snd (store_snapshot lagging_env old_cache w')"
  have w'': "vault (session ?w'') = Some old_cache" "last_refresh_at (session ?w'') = 0"
    by (simp_all add: store_snapshot_eq lagging_env_def still_env_def)
  have miss: "first_attempt lagging_env db_request ?w'' = db_missed"
    by (simp add: first_attempt_def old_cache_misses w''(1) stale_miss_def is_stale_miss_def)
  note run = scene_works [OF store_step [of lagging_env toy_config old_cache w']]
  note run = rtranclp_trans [OF run scene_asks(2) [where reqs = db_request], unfolded miss]
  note run = rtranclp_trans [OF run scene_locks(2)]
  have cool: "in_cooldown lagging_env toy_config ?w''"
    using w''(2) by (simp add: in_cooldown_def lagging_env_def still_env_def saturating_duration_since_def
        toy_config_def nanos_def)
  show ?thesis
    by (intro exI conjI, rule h(1), simp, simp, rule new, simp, simp, simp add: hit, rule run)
      (use w'' cool in simp_all)
qed

end
