(* ===== verification/Startup.thy ===== *)
theory Startup
  imports Background Duration
begin

text \<open>
  \<open>src/main.rs\<close>: the configuration from the environment and the start of a replica, from the
  acquisition of the lease to the point where the background tasks and the controller are spawned.
  Environment variables are a map (a variable that is unset or not UTF-8 has no value). Tracing, the
  Kubernetes client and the spawning itself are left out.
\<close>

section \<open>Operations\<close>

text \<open>Both in seconds.\<close>

definition DEFAULT_VAULT_CACHE_REFRESH_INTERVAL :: u64 where
  "DEFAULT_VAULT_CACHE_REFRESH_INTERVAL = 5 * 60"

definition DEFAULT_VAULT_CACHE_MIN_REFRESH_INTERVAL :: u64 where
  "DEFAULT_VAULT_CACHE_MIN_REFRESH_INTERVAL = 30"

type_synonym variables = "string \<Rightarrow> string option"

definition env_duration :: "bool \<Rightarrow> variables \<Rightarrow> string \<Rightarrow> u64 \<Rightarrow> ('e, u64) outcome" where
  "env_duration oc vars key fallback =
     (case vars key of
        None \<Rightarrow> Ok fallback
      | Some v \<Rightarrow>
          if v = [] then Ok fallback
          else (case parse_duration oc v of
                  Ok d \<Rightarrow> if d = 0 then Ok fallback else Ok d
                | Err e \<Rightarrow> Ok fallback
                | Panic \<Rightarrow> Panic))"

text \<open>A missing variable exits the process with this code.\<close>

definition required_env :: "variables \<Rightarrow> string \<Rightarrow> (nat, string) outcome" where
  "required_env vars key = ok_or 1 (vars key)"

definition optional_env :: "variables \<Rightarrow> string \<Rightarrow> string option" where
  "optional_env vars key = (case vars key of Some v \<Rightarrow> if v = [] then None else Some v | None \<Rightarrow> None)"

text \<open>The client's configuration (its device id is drawn later) and the period of the re-sync.\<close>

definition startup_config :: "bool \<Rightarrow> variables \<Rightarrow> (nat, client_config \<times> u64) outcome" where
  "startup_config oc vars =
     obind (required_env vars ''VAULTWARDEN_URL'') (\<lambda>vault_url.
     obind (required_env vars ''VAULTWARDEN_EMAIL'') (\<lambda>vault_email.
     obind (required_env vars ''VAULTWARDEN_PASSWORD'') (\<lambda>vault_password.
     let client_id = optional_env vars ''VAULTWARDEN_CLIENT_ID'';
         client_secret = optional_env vars ''VAULTWARDEN_CLIENT_SECRET'' in
     obind (env_duration oc vars ''VAULT_CACHE_REFRESH_INTERVAL'' DEFAULT_VAULT_CACHE_REFRESH_INTERVAL)
       (\<lambda>cache_refresh_interval.
     obind (env_duration oc vars ''VAULT_CACHE_MIN_REFRESH_INTERVAL'' DEFAULT_VAULT_CACHE_MIN_REFRESH_INTERVAL)
       (\<lambda>cache_min_refresh_interval.
       Ok (\<lparr>cfg_base_url = vault_url, cfg_email = vault_email, cfg_password = vault_password,
             cfg_client_id = client_id, cfg_client_secret = client_secret, cfg_device_id = [],
             min_refresh_interval = nanos (unat cache_min_refresh_interval)\<rparr>,
           cache_refresh_interval))))))"

text \<open>A replica exits with a code (1 for a fatal error, 101 for a panic of the main task) or starts
  serving with its client and the period of the re-sync, in seconds.\<close>

datatype launch = Exited nat | Serving client_config session u64

definition run_leader :: "'rsa env \<Rightarrow> variables \<Rightarrow> (nat \<Rightarrow> string) \<Rightarrow> history \<Rightarrow> launch \<times> history" where
  "run_leader E vars dev h =
     (case startup_config (overflow_checks E) vars of
        Err code \<Rightarrow> (Exited code, h)
      | Panic \<Rightarrow> (Exited 101, h)
      | Ok (c, period) \<Rightarrow>
          (case initialize_vault_client E c dev h of
             (Ok (c', s), h') \<Rightarrow> (Serving c' s period, h')
           | (Err e, h') \<Rightarrow> (Exited 1, h')
           | (Panic, h') \<Rightarrow> (Exited 101, h')))"

text \<open>\<open>None\<close>: the replica waits for the lease for ever.\<close>

definition start_replica ::
    "'rsa env \<Rightarrow> variables \<Rightarrow> (nat \<Rightarrow> string) \<Rightarrow> history \<Rightarrow> (launch \<times> history) option" where
  "start_replica E vars dev h =
     (case acquire E h of
        None \<Rightarrow> None
      | Some (ExitedOnSignal, h1) \<Rightarrow> Some (Exited 0, h1)
      | Some (Acquired, h1) \<Rightarrow> Some (run_leader E vars dev h1))"

text \<open>The end of \<open>main\<close>, after the controller has stopped; the answer of the step-down is only logged.\<close>

definition shutdown_leader :: "history \<Rightarrow> launch \<times> history" where
  "shutdown_leader h = (Exited 0, h @ [LeaseStepDown])"

section \<open>Configuration\<close>

lemma env_duration_positive: "env_duration oc vars key fallback = Ok d \<Longrightarrow> fallback \<noteq> 0 \<Longrightarrow> d \<noteq> 0"
  by (auto simp: env_duration_def split: option.splits if_splits outcome.splits)

lemma env_duration_no_Err: "env_duration oc vars key fallback \<noteq> Err e"
  by (simp add: env_duration_def split: option.split outcome.split)

lemma startup_config_period: "startup_config oc vars = Ok (c, period) \<Longrightarrow> period \<noteq> 0"
  by (auto simp: startup_config_def outcome_iffs Let_def DEFAULT_VAULT_CACHE_REFRESH_INTERVAL_def
      dest: env_duration_positive)

section \<open>What start-up does to the outside\<close>

lemma run_session_quiet [quiet_rules]:
  assumes "adds trace quiet m"
  shows "adds (\<lambda>h. h) quiet (run_session s m)"
  unfolding adds_def
proof
  fix h
  obtain new where "trace (snd (m \<lparr>trace = h, session = s\<rparr>)) = h @ new" "quiet new"
    using addsD [OF assms, of "\<lparr>trace = h, session = s\<rparr>"] by auto
  then show "\<exists>new. snd (run_session s m h) = h @ new \<and> quiet new"
    by (auto simp: run_session_def split: prod.splits outcome.splits)
qed

lemma refresh_quiet [quiet_rules]: "adds trace quiet (refresh_vault_cache E c)"
  unfolding refresh_vault_cache_def ensure_valid_token_def fetch_sync_renewing_def fetch_sync_def store_snapshot_def
  by (intro quiet_rules) simp_all

lemma new_client_quiet [quiet_rules]: "adds (\<lambda>h. h) quiet (new_client E c dev)"
  unfolding new_client_def Let_def by (intro quiet_rules)

lemma initialize_quiet: "adds (\<lambda>h. h) quiet (initialize_vault_client E c dev)"
  unfolding initialize_unrolled by (intro quiet_rules)

lemma initialize_initialized:
  "initialize_vault_client E c dev h = (Ok (c', s), h') \<Longrightarrow> initialized E s"
  by (auto simp: initialize_unrolled action_Ok dest: new_client_initialized)

lemma run_leader_quiet: "\<exists>new. snd (run_leader E vars dev h) = h @ new \<and> quiet new"
proof (cases "startup_config (overflow_checks E) vars")
  case (Ok p)
  then show ?thesis
    using addsD [OF initialize_quiet, of E "fst p" dev h]
    by (cases p; cases "initialize_vault_client E (fst p) dev h")
      (auto simp: run_leader_def split: outcome.splits)
qed (simp_all add: run_leader_def)

lemma run_leader_Serving:
  assumes "run_leader E vars dev h = (Serving c s period, h')"
  shows "period \<noteq> 0 \<and> initialized E s"
  using assms
  by (auto simp: run_leader_def dest: startup_config_period initialize_initialized split: outcome.splits prod.splits)

lemma acquire_won:
  "acquire E h = Some (Acquired, h1) \<Longrightarrow>
     \<exists>k. wins_at E h k \<and> h1 = rounds acquire_round k h @ [LeaseTry]"
  by (auto simp: acquire_iff split: if_splits)

lemma start_Serving:
  assumes "start_replica E vars dev h = Some (Serving c s period, h')"
  shows "\<exists>h1. acquire E h = Some (Acquired, h1) \<and> run_leader E vars dev h1 = (Serving c s period, h')"
  using assms by (auto simp: start_replica_def split: option.splits acquired.splits)

section \<open>Concrete replicas\<close>

definition toy_vars :: variables where
  "toy_vars = [''VAULTWARDEN_URL'' \<mapsto> ''https://v/'', ''VAULTWARDEN_EMAIL'' \<mapsto> ''u@x'', ''VAULTWARDEN_PASSWORD'' \<mapsto> ''pw'']"

lemma toy_startup: "startup_config oc toy_vars = Ok (toy_config, 300)"
  by (simp add: startup_config_def required_env_def toy_vars_def env_duration_def optional_env_def toy_config_def
      DEFAULT_VAULT_CACHE_REFRESH_INTERVAL_def DEFAULT_VAULT_CACHE_MIN_REFRESH_INTERVAL_def)

lemma wins_first: "lease_answer E (h @ [LeaseTry]) = Inr True \<Longrightarrow> acquire E h = Some (Acquired, h @ [LeaseTry])"
  by (subst acquire.simps) simp

lemma toy_start:
  "\<exists>c s h'. start_replica toy_env toy_vars (\<lambda>_. ''dev'') [] = Some (Serving c s 300, h')"
proof -
  have "acquire toy_env [] = Some (Acquired, [LeaseTry])" using wins_first [of toy_env "[]"] by (simp add: toy_env_def)
  moreover have "overflow_checks toy_env = False" by (simp add: toy_env_def)
  moreover obtain s h' where "new_client toy_env toy_config ''dev'' [LeaseTry] = (Ok (new_config toy_config ''dev'', s), h')"
    using toy_new_client [of "[LeaseTry]"] by auto
  then have "initialize_vault_client toy_env toy_config (\<lambda>_. ''dev'') [LeaseTry] = (Ok (new_config toy_config ''dev'', s), h')"
    by (simp add: initialize_unrolled outcome_simps areturn_def)
  ultimately have "start_replica toy_env toy_vars (\<lambda>_. ''dev'') [] = Some (Serving (new_config toy_config ''dev'') s 300, h')"
    by (simp add: start_replica_def run_leader_def toy_startup)
  then show ?thesis by blast
qed

section \<open>Properties\<close>

text \<open>C11. A replica that starts serving won the lease with its last attempt, made no other lease call
  since, has a usable snapshot of the vault, and has a positive re-sync period, so that the timer of
  the periodic re-sync does not panic.\<close>

theorem serving_replica_ready:
  assumes "start_replica E vars dev h = Some (Serving c s period, h')"
  shows "(\<exists>k new. wins_at E h k \<and> h' = rounds acquire_round k h @ [LeaseTry] @ new \<and> quiet new)
    \<and> initialized E s \<and> 0 < period"
proof -
  obtain h1 where h1: "acquire E h = Some (Acquired, h1)" "run_leader E vars dev h1 = (Serving c s period, h')"
    using start_Serving [OF assms] by blast
  then obtain k new where "wins_at E h k" "h1 = rounds acquire_round k h @ [LeaseTry]" "h' = h1 @ new" "quiet new"
    using acquire_won [of E h h1] run_leader_quiet [of E vars dev h1] by auto
  moreover have "period \<noteq> 0 \<and> initialized E s" using h1(2) by (rule run_leader_Serving)
  ultimately show ?thesis by (auto simp: word_gt_0)
qed

theorem serving_replica_ready_witness:
  "\<exists>c s h'. start_replica toy_env toy_vars (\<lambda>_. ''dev'') [] = Some (Serving c s 300, h')
    \<and> (\<exists>k new. wins_at toy_env [] k \<and> h' = rounds acquire_round k [] @ [LeaseTry] @ new \<and> quiet new)
    \<and> initialized toy_env s"
  using toy_start serving_replica_ready by blast

text \<open>A leader whose start-up fails exits without giving the lease back, and the lease has expired
  long before: against a server that is down, a replica wins the lease, makes three attempts over
  65 seconds without renewing it once, and exits with no step-down.\<close>

theorem failed_startup_keeps_lease:
  "\<exists>(E :: bytes env) vars dev new. start_replica E vars dev [] = Some (Exited 1, [LeaseTry] @ new)
    \<and> lease_answer E [LeaseTry] = Inr True \<and> quiet new \<and> nanos LEASE_TTL < slept new"
proof -
  let ?req = "HttpSent (prelogin_request (cfg_base_url (new_config toy_config [])) ''u@x'')"
  let ?new = "[?req, Slept (nanos 20), ?req, Slept (nanos 45), ?req]"
  have client: "new_client down_env toy_config [] h = (Err (VAuth (AuthHttp ''connection refused'')), h @ [?req])" for h
    by (simp add: new_client_def Let_def authenticate_def prelogin_def send_json_def http_send_def atry_def abind_def
        amatch_def afail_def) (simp add: new_config_def toy_config_def down_env_def afail_def)
  have lease: "lease_answer down_env [LeaseTry] = Inr True" by (simp add: down_env_def)
  have "initialize_vault_client down_env toy_config (\<lambda>_. []) [LeaseTry] =
      (Err (VAuth (AuthHttp ''connection refused'')), [LeaseTry] @ ?new)"
    by (simp add: initialize_unrolled amatch_def abind_def client sleep_for_def afail_def)
  moreover have "acquire down_env [] = Some (Acquired, [LeaseTry])" using wins_first [of down_env "[]"] lease by simp
  moreover have "overflow_checks down_env = False" by (simp add: down_env_def)
  ultimately have "start_replica down_env toy_vars (\<lambda>_. []) [] = Some (Exited 1, [LeaseTry] @ ?new)"
    by (simp add: start_replica_def run_leader_def toy_startup)
  moreover have "quiet ?new \<and> nanos LEASE_TTL < slept ?new" by (simp add: quiet_def LEASE_TTL_def nanos_def)
  ultimately show ?thesis using lease by blast
qed

text \<open>An interval with a Greek small mu in place of the micro sign panics the start of the leader, where a
  parse failure is meant to fall back on the default.\<close>

theorem bad_interval_stops_leader:
  "\<exists>vars. (\<forall>key. key \<noteq> ''VAULT_CACHE_REFRESH_INTERVAL'' \<longrightarrow> vars key = toy_vars key)
    \<and> start_replica toy_env vars dev [] = Some (Exited 101, [LeaseTry])"
proof -
  let ?v = "''5'' @ [CHR 0xCE, CHR 0xBC] @ ''s''"
  let ?vars = "toy_vars(''VAULT_CACHE_REFRESH_INTERVAL'' \<mapsto> ?v)"
  have "parse_duration oc ?v = Panic" for oc
    by (simp add: parse_duration_def parse_loop.simps strip_unit_def str_eval)
  then have "startup_config oc ?vars = Panic" for oc
    by (simp add: startup_config_def required_env_def toy_vars_def env_duration_def)
  moreover have "acquire toy_env [] = Some (Acquired, [LeaseTry])" using wins_first [of toy_env "[]"] by (simp add: toy_env_def)
  ultimately have "start_replica toy_env ?vars dev [] = Some (Exited 101, [LeaseTry])"
    by (simp add: start_replica_def run_leader_def)
  then show ?thesis by (intro exI [of _ ?vars]) simp
qed

end
