(* ===== verification/Lifecycle.thy ===== *)
theory Lifecycle
  imports Interleavings Startup Controller
begin

text \<open>
  The life of a serving leader, from the end of the start-up to the end of \<open>main\<close> (\<open>src/main.rs\<close>): the
  token and re-sync tasks, the lease renewal task, the controller with its reconciles in flight, the
  future that stops the controller (a signal, or the renewal task's message that the lease is lost),
  and the steps of \<open>main\<close> after the controller has ended. The controller of kube-runtime is a library:
  when it starts a reconcile and when its stream ends are parameters (\<open>runtime\<close>).
\<close>

section \<open>The process\<close>

text \<open>The renewal task: \<open>keep_renewing\<close> with its error counter, then the message to the controller.\<close>

datatype renewer = Sleeping nat | Trying nat | GivingUp | Signalling | Gone

datatype main_at = Controlling | TellingTasks | SteppingDown | Leaving | Ended | Crashed

text \<open>The process is gone when \<open>main\<close> has returned or unwound.\<close>

fun alive :: "main_at \<Rightarrow> bool" where
  "alive Ended = False"
| "alive Crashed = False"
| "alive _ = True"

record process =
  client :: world
  renewer :: renewer
  lease_lost :: bool
  stopping :: bool
  in_flight :: nat
  main_at :: main_at
  shutdown_sent :: bool
  task_alive :: "background \<Rightarrow> bool"

text \<open>What the library decides: \<open>starts stopping h\<close>, whether the controller may start a reconcile now;
  \<open>ends stopping in_flight h\<close>, whether its stream may end now; and \<open>panic_unwinds\<close>, whether the panic of a
  reconcile unwinds the controller, which \<open>main\<close> runs (otherwise it is contained).\<close>

record runtime =
  starts :: "bool \<Rightarrow> history \<Rightarrow> bool"
  ends :: "bool \<Rightarrow> nat \<Rightarrow> history \<Rightarrow> bool"
  panic_unwinds :: bool

text \<open>The documented behaviour of \<open>graceful_shutdown_on\<close>: once the future has resolved no new reconcile
  is started; the stream ends only then, and after the running reconciles have finished.\<close>

definition graceful :: "runtime \<Rightarrow> bool" where
  "graceful R \<longleftrightarrow> (\<forall>h. \<not> starts R True h) \<and> (\<forall>stopping n h. ends R stopping n h \<longrightarrow> stopping \<and> n = 0)"

definition log :: "event list \<Rightarrow> process \<Rightarrow> process" where
  "log es s = s\<lparr>client := client s\<lparr>trace := trace (client s) @ es\<rparr>\<rparr>"

text \<open>One renewal attempt.\<close>

definition after_try :: "'rsa env \<Rightarrow> nat \<Rightarrow> history \<Rightarrow> renewer" where
  "after_try E consecutive_errors h =
     (case lease_answer E h of
        Inr True \<Rightarrow> Sleeping 0
      | Inr False \<Rightarrow> GivingUp
      | Inl e \<Rightarrow> if error_threshold \<le> consecutive_errors + 1 then GivingUp else Sleeping (consecutive_errors + 1))"

text \<open>One turn of a background task. Once it has been \<open>told\<close> to stop, its \<open>select\<close> may take either arm
  (\<open>stop_at\<close> says which); before that, only the timer.\<close>

definition background_turn ::
    "'rsa env \<Rightarrow> client_config \<Rightarrow> bool \<Rightarrow> background \<Rightarrow> (world, vault_error, turn) action" where
  "background_turn E c told b =
     (let E' = (if told then E else E\<lparr>stop_at := \<lambda>h. False\<rparr>) in
      case b of TokenTask \<Rightarrow> token_refresh_turn E' c | ResyncTask \<Rightarrow> cache_refresh_turn E' c)"

text \<open>\<open>let _ = shutdown_tx.send(true)\<close> and the best-effort step-down of \<open>main\<close> close the life.\<close>

inductive process_step :: "'rsa env \<Rightarrow> client_config \<Rightarrow> runtime \<Rightarrow> process \<Rightarrow> process \<Rightarrow> bool" for E c R where
  signal: "alive (main_at s) \<Longrightarrow> process_step E c R s (s\<lparr>stopping := True\<rparr>)"
| notice: "alive (main_at s) \<Longrightarrow> lease_lost s \<Longrightarrow> process_step E c R s (s\<lparr>stopping := True\<rparr>)"
| renew_sleep: "alive (main_at s) \<Longrightarrow> renewer s = Sleeping n \<Longrightarrow>
    process_step E c R s (log [Slept (nanos RENEW_INTERVAL)] (s\<lparr>renewer := Trying n\<rparr>))"
| renew_try: "alive (main_at s) \<Longrightarrow> renewer s = Trying n \<Longrightarrow>
    process_step E c R s (log [LeaseTry] (s\<lparr>renewer := after_try E n (trace (client s) @ [LeaseTry])\<rparr>))"
| give_up: "alive (main_at s) \<Longrightarrow> renewer s = GivingUp \<Longrightarrow>
    process_step E c R s (log [LeaseStepDown] (s\<lparr>renewer := Signalling\<rparr>))"
| send_lost: "alive (main_at s) \<Longrightarrow> renewer s = Signalling \<Longrightarrow>
    process_step E c R s (s\<lparr>renewer := Gone, lease_lost := True\<rparr>)"
| start: "main_at s = Controlling \<Longrightarrow> starts R (stopping s) (trace (client s)) \<Longrightarrow>
    process_step E c R s (s\<lparr>in_flight := Suc (in_flight s)\<rparr>)"
| finish: "alive (main_at s) \<Longrightarrow> in_flight s = Suc n \<Longrightarrow> reconcile_event E c e (client s) = (r, w) \<Longrightarrow>
    \<not> (r = Panic \<and> panic_unwinds R) \<Longrightarrow> process_step E c R s (s\<lparr>in_flight := n, client := w\<rparr>)"
| crash: "alive (main_at s) \<Longrightarrow> in_flight s = Suc n \<Longrightarrow> reconcile_event E c e (client s) = (Panic, w) \<Longrightarrow>
    panic_unwinds R \<Longrightarrow> process_step E c R s (s\<lparr>main_at := Crashed, client := w\<rparr>)"
| controller_ends: "main_at s = Controlling \<Longrightarrow> ends R (stopping s) (in_flight s) (trace (client s)) \<Longrightarrow>
    process_step E c R s (s\<lparr>main_at := TellingTasks\<rparr>)"
| tell: "main_at s = TellingTasks \<Longrightarrow> process_step E c R s (s\<lparr>main_at := SteppingDown, shutdown_sent := True\<rparr>)"
| step_down: "main_at s = SteppingDown \<Longrightarrow> process_step E c R s (log [LeaseStepDown] (s\<lparr>main_at := Leaving\<rparr>))"
| leave: "main_at s = Leaving \<Longrightarrow> process_step E c R s (s\<lparr>main_at := Ended\<rparr>)"
| background: "alive (main_at s) \<Longrightarrow> task_alive s b \<Longrightarrow>
    background_turn E c (shutdown_sent s) b (client s) = (r, w) \<Longrightarrow>
    process_step E c R s (s\<lparr>client := w, task_alive := (task_alive s)(b := (r = Ok Again))\<rparr>)"

text \<open>The leader at the end of its start-up.\<close>

definition serving :: "world \<Rightarrow> process" where
  "serving w = \<lparr>client = w, renewer = Sleeping 0, lease_lost = False, stopping = False, in_flight = 0,
     main_at = Controlling, shutdown_sent = False, task_alive = (\<lambda>b. True)\<rparr>"

lemma log_sel [simp]:
  "client (log es s) = client s\<lparr>trace := trace (client s) @ es\<rparr>" "renewer (log es s) = renewer s"
  "lease_lost (log es s) = lease_lost s" "stopping (log es s) = stopping s" "in_flight (log es s) = in_flight s"
  "main_at (log es s) = main_at s" "shutdown_sent (log es s) = shutdown_sent s" "task_alive (log es s) = task_alive s"
  by (simp_all add: log_def)

section \<open>What the steps add to the history\<close>

fun is_lease :: "event \<Rightarrow> bool" where
  "is_lease LeaseTry = True"
| "is_lease LeaseStepDown = True"
| "is_lease _ = False"

lemma client_no_lease: "client_event e \<Longrightarrow> \<not> is_lease e"
  by (cases e) simp_all

lemma quiet_no_lease: "quiet h \<Longrightarrow> filter is_lease h = []"
  by (simp add: quiet_def list_all_iff filter_empty_conv client_no_lease)

lemma adds_case_option_any [quiet_rules]:
  "adds tr R m \<Longrightarrow> (\<And>y. adds tr R (f y)) \<Longrightarrow> adds tr R (case x of None \<Rightarrow> m | Some y \<Rightarrow> f y)"
  by (simp split: option.split)

lemma ensure_valid_token_quiet [quiet_rules]: "adds trace quiet (ensure_valid_token E c)"
  unfolding ensure_valid_token_def by (intro quiet_rules)

lemma token_turn_quiet: "adds trace quiet (token_refresh_turn E c)"
  unfolding token_refresh_turn_def token_sleep_def by (intro quiet_rules)

lemma fetch_sync_quiet [quiet_rules]: "adds (\<lambda>h. h) quiet (fetch_sync E base_url tok)"
  unfolding fetch_sync_def by (intro quiet_rules)

lemma tick_or_stop_quiet [quiet_rules]: "adds (\<lambda>h. h) quiet (tick_or_stop E)"
  by (simp add: adds_def tick_or_stop_def Let_def quiet_def)

lemma cache_turn_quiet: "adds trace quiet (cache_refresh_turn E c)"
  unfolding cache_refresh_turn_def refresh_vault_cache_def fetch_sync_renewing_def store_snapshot_def
  by (intro quiet_rules) simp_all

lemma background_turn_quiet: "adds trace quiet (background_turn E c told b)"
  by (cases b) (simp_all add: background_turn_def [abs_def] token_turn_quiet cache_turn_quiet)

lemma background_adds:
  "background_turn E c told b w = (r, w') \<Longrightarrow>
     \<exists>es. trace w' = trace w @ es \<and> filter is_kube es = [] \<and> filter is_lease es = []"
  using addsD [OF background_turn_quiet, of E c told b w] by (auto dest: quiet_kube quiet_no_lease)

lemma reconcile_adds:
  assumes "reconcile_event E c e w = (r, w')"
  shows "\<exists>es. trace w' = trace w @ es \<and> filter is_lease es = []"
proof (cases e)
  case (FinalizerCleanup v)
  then show ?thesis using assms by (simp add: reconcile_event_def areturn_def)
next
  case (FinalizerApply v)
  obtain w1 where w1: "fetch_done E c w w1"
    "w' = w1\<lparr>trace := reconcile_history E v (sync_attempt E c v w) (trace w1)\<rparr>"
    using reconcile_trace [of E c w v] assms by (auto simp: reconcile_event_def FinalizerApply)
  obtain n where n: "trace w1 = trace w @ n" "filter is_lease n = []"
    using fetch_done_quiet [OF w1(1)] by (auto dest: quiet_no_lease)
  then show ?thesis
    by (auto simp: w1(2) reconcile_history_def patched_def status_event_def secret_get_def secret_write_def Let_def
        split: outcome.split option.split sum.split)
qed

section \<open>The shutdown\<close>

fun telling :: "main_at \<Rightarrow> bool" where
  "telling SteppingDown = True"
| "telling Leaving = True"
| "telling Ended = True"
| "telling _ = False"

fun released :: "main_at \<Rightarrow> bool" where
  "released Leaving = True"
| "released Ended = True"
| "released _ = False"

text \<open>The renewal task has stepped down.\<close>

fun gave_up :: "renewer \<Rightarrow> bool" where
  "gave_up Signalling = True"
| "gave_up Gone = True"
| "gave_up _ = False"

text \<open>The history of a leader's life: until the last step-down of \<open>main\<close> the only step-down is that of the
  renewal task; after it there is no Kubernetes call, and, when the renewal task had stepped down
  before, no lease call either.\<close>

definition lease_clause :: "bool \<Rightarrow> bool \<Rightarrow> event list \<Rightarrow> bool" where
  "lease_clause rel given_up es \<longleftrightarrow>
     (if rel then (\<exists>before after. es = before @ [LeaseStepDown] @ after \<and> filter is_kube after = []
          \<and> (LeaseStepDown \<in> set before \<longrightarrow> given_up \<and> filter is_lease after = []))
      else (LeaseStepDown \<in> set es \<longleftrightarrow> given_up))"

definition shutdown_inv :: "world \<Rightarrow> process \<Rightarrow> bool" where
  "shutdown_inv w s \<longleftrightarrow>
     (main_at s \<notin> {Controlling, Crashed} \<longrightarrow> in_flight s = 0) \<and> (telling (main_at s) \<longrightarrow> shutdown_sent s)
     \<and> (\<exists>es. trace (client s) = trace w @ es \<and> lease_clause (released (main_at s)) (gave_up (renewer s)) es)"

lemma no_lease_step_down: "filter is_lease es = [] \<Longrightarrow> LeaseStepDown \<notin> set es"
  by (auto simp: filter_empty_conv)

lemma lease_clause_releasedE:
  assumes "lease_clause True g es"
  obtains before after where "es = before @ [LeaseStepDown] @ after" "filter is_kube after = []"
    "LeaseStepDown \<in> set before \<longrightarrow> g \<and> filter is_lease after = []"
  using assms unfolding lease_clause_def by auto

lemma lease_clause_releasedI:
  "filter is_kube after = [] \<Longrightarrow> (LeaseStepDown \<in> set before \<Longrightarrow> g \<and> filter is_lease after = []) \<Longrightarrow>
     lease_clause True g (before @ [LeaseStepDown] @ after)"
  unfolding lease_clause_def by auto

lemma lease_clause_add:
  assumes "lease_clause rel g es" and "filter is_lease new = []" and "rel \<longrightarrow> filter is_kube new = []"
  shows "lease_clause rel g (es @ new)"
proof (cases rel)
  case True
  with assms(1) obtain before after where p: "es = before @ [LeaseStepDown] @ after" "filter is_kube after = []"
    "LeaseStepDown \<in> set before \<longrightarrow> g \<and> filter is_lease after = []" by (auto elim: lease_clause_releasedE)
  have "lease_clause True g (before @ [LeaseStepDown] @ (after @ new))"
    by (rule lease_clause_releasedI) (use p(2,3) assms(2,3) True in simp_all)
  then show ?thesis by (simp add: p(1) True)
next
  case False
  with assms(1) no_lease_step_down [OF assms(2)] show ?thesis by (simp add: lease_clause_def)
qed

text \<open>An event of the renewal task, which has not given up before.\<close>

lemma lease_clause_renewal:
  assumes "lease_clause rel False es" and "e = LeaseStepDown \<longleftrightarrow> g" and "\<not> is_kube e"
  shows "lease_clause rel g (es @ [e])"
proof (cases rel)
  case True
  with assms(1) obtain before after where p: "es = before @ [LeaseStepDown] @ after" "filter is_kube after = []"
    "LeaseStepDown \<notin> set before" by (auto elim: lease_clause_releasedE)
  have "lease_clause True g (before @ [LeaseStepDown] @ (after @ [e]))"
    by (rule lease_clause_releasedI) (use p(2,3) assms(3) in simp_all)
  then show ?thesis by (simp add: p(1) True)
next
  case False
  with assms show ?thesis by (auto simp: lease_clause_def)
qed

lemma after_try_not_gave_up [simp]: "\<not> gave_up (after_try E n h)"
  by (simp add: after_try_def split: sum.split bool.split)

lemma shutdown_inv_step:
  assumes "graceful R" and "shutdown_inv w s" and "process_step E c R s t"
  shows "shutdown_inv w t"
proof -
  obtain es where es: "trace (client s) = trace w @ es"
    and clause: "lease_clause (released (main_at s)) (gave_up (renewer s)) es"
    and flight: "main_at s \<notin> {Controlling, Crashed} \<Longrightarrow> in_flight s = 0"
    and told: "telling (main_at s) \<Longrightarrow> shutdown_sent s"
    using assms(2) unfolding shutdown_inv_def by blast
  have keep: ?thesis
    if "main_at t = main_at s" "in_flight t = in_flight s \<or> main_at s = Controlling"
      "shutdown_sent t = shutdown_sent s" "trace (client t) = trace w @ es @ new"
      "lease_clause (released (main_at s)) (gave_up (renewer t)) (es @ new)" for new
    unfolding shutdown_inv_def using that flight told by (intro conjI exI [of _ "es @ new"]) auto
  show ?thesis
    using assms(3)
  proof cases
    case (renew_sleep n)
    have "lease_clause (released (main_at s)) False (es @ [Slept (nanos RENEW_INTERVAL)])"
      by (rule lease_clause_renewal) (use clause renew_sleep in simp_all)
    with renew_sleep es show ?thesis by (intro keep [of "[Slept (nanos RENEW_INTERVAL)]"]) simp_all
  next
    case (renew_try n)
    have "lease_clause (released (main_at s)) False (es @ [LeaseTry])"
      by (rule lease_clause_renewal) (use clause renew_try in simp_all)
    with renew_try es show ?thesis by (intro keep [of "[LeaseTry]"]) simp_all
  next
    case give_up
    have "lease_clause (released (main_at s)) True (es @ [LeaseStepDown])"
      by (rule lease_clause_renewal) (use clause give_up in simp_all)
    with give_up es show ?thesis by (intro keep [of "[LeaseStepDown]"]) simp_all
  next
    case (finish n e r w')
    then have at: "main_at s = Controlling" using flight by (cases "main_at s") auto
    obtain new where new: "trace w' = trace (client s) @ new" "filter is_lease new = []"
      using reconcile_adds [OF finish(4)] by blast
    show ?thesis
      by (rule keep [of new]) (use finish(1) at new es lease_clause_add [OF clause new(2)] in simp_all)
  next
    case (crash n e w')
    then have at: "main_at s = Controlling" using flight by (cases "main_at s") auto
    obtain new where new: "trace w' = trace (client s) @ new" "filter is_lease new = []"
      using reconcile_adds [OF crash(4)] by blast
    with lease_clause_add [OF clause new(2)] at es show ?thesis
      unfolding shutdown_inv_def crash(1) by (intro conjI exI [of _ "es @ new"]) simp_all
  next
    case controller_ends
    with clause es assms(1) show ?thesis
      unfolding shutdown_inv_def graceful_def by (intro conjI exI [of _ es]) auto
  next
    case tell
    with clause es flight show ?thesis
      unfolding shutdown_inv_def by (intro conjI exI [of _ es]) simp_all
  next
    case step_down
    then have "lease_clause True (gave_up (renewer s)) (es @ [LeaseStepDown] @ [])"
      using clause by (intro lease_clause_releasedI) (simp_all add: lease_clause_def)
    with step_down es flight told show ?thesis
      unfolding shutdown_inv_def by (intro conjI exI [of _ "es @ [LeaseStepDown]"]) simp_all
  next
    case leave
    with clause es flight told show ?thesis
      unfolding shutdown_inv_def by (intro conjI exI [of _ es]) simp_all
  next
    case (background b r w')
    obtain new where new: "trace w' = trace (client s) @ new" "filter is_kube new = []" "filter is_lease new = []"
      using background_adds [OF background(4)] by blast
    show ?thesis
      by (rule keep [of new]) (use background(1) new es lease_clause_add [OF clause new(3)] in simp_all)
  next
    case send_lost
    then show ?thesis by (intro keep [of "[]"]) (use clause es in simp_all)
  next
    case start
    then show ?thesis by (intro keep [of "[]"]) (use clause es in simp_all)
  qed (rule keep [of "[]"]; use clause es in simp)+
qed

interpretation shutdown_system: invariant_system "\<lambda>s. s = serving w"
  "\<lambda>s t. graceful R \<and> process_step E c R s t" "shutdown_inv w"
  for E :: "'rsa env" and c R w
proof
  show "shutdown_inv w s" if "s = serving w" for s
    using that by (simp add: shutdown_inv_def serving_def lease_clause_def)
qed (auto intro: shutdown_inv_step)

abbreviation proceeds :: "'rsa env \<Rightarrow> client_config \<Rightarrow> runtime \<Rightarrow> process \<Rightarrow> process \<Rightarrow> bool" where
  "proceeds E c R \<equiv> rtranclp (process_step E c R)"

section \<open>The renewal task\<close>

definition renewing :: "world \<Rightarrow> renewer \<Rightarrow> history \<Rightarrow> process" where
  "renewing w r h = (serving w)\<lparr>client := w\<lparr>trace := h\<rparr>, renewer := r\<rparr>"

lemma renewing_sel [simp]:
  "client (renewing w r h) = w\<lparr>trace := h\<rparr>" "renewer (renewing w r h) = r" "main_at (renewing w r h) = Controlling"
  "(renewing w r h)\<lparr>renewer := r'\<rparr> = renewing w r' h" "log es (renewing w r h) = renewing w r (h @ es)"
  by (simp_all add: renewing_def serving_def log_def)

lemma renewing_start: "serving w = renewing w (Sleeping 0) (trace w)"
  by (simp add: renewing_def serving_def)

lemma renewing_turn:
  "proceeds E c R (renewing w (Sleeping n) h) (renewing w (after_try E n (h @ renew_round)) (h @ renew_round))"
proof -
  let ?h = "h @ [Slept (nanos RENEW_INTERVAL)]"
  have "process_step E c R (renewing w (Sleeping n) h) (renewing w (Trying n) ?h)"
    using process_step.renew_sleep [of "renewing w (Sleeping n) h" n E c R] by simp
  moreover have "process_step E c R (renewing w (Trying n) ?h) (renewing w (after_try E n (?h @ [LeaseTry])) (?h @ [LeaseTry]))"
    using process_step.renew_try [of "renewing w (Trying n) ?h" n E c R] by simp
  ultimately show ?thesis by (simp add: renew_round_def)
qed

lemma after_try_turn:
  "after_try E (errors_before E h k) (rounds renew_round k h @ renew_round) =
     (if stops_at E h k then GivingUp else Sleeping (errors_before E h (Suc k)))"
  by (auto simp: after_try_def stops_at_def renewal_def rounds_Suc failed_at_def split: sum.splits bool.splits)

lemma renewing_reaches:
  "(\<And>j. j < k \<Longrightarrow> \<not> stops_at E h j) \<Longrightarrow>
     proceeds E c R (renewing w (Sleeping 0) h) (renewing w (Sleeping (errors_before E h k)) (rounds renew_round k h))"
proof (induction k)
  case (Suc k)
  then have "\<not> stops_at E h k" by simp
  with Suc renewing_turn [of E c R w "errors_before E h k" "rounds renew_round k h"] show ?case
    by (simp add: after_try_turn rounds_Suc)
qed simp

section \<open>Concrete lives\<close>

definition prompt :: runtime where
  "prompt = \<lparr>starts = (\<lambda>stopping h. \<not> stopping), ends = (\<lambda>stopping n h. stopping \<and> n = 0),
     panic_unwinds = True\<rparr>"

lemma prompt_graceful [simp]: "graceful prompt"
  by (simp add: graceful_def prompt_def)

text \<open>Another replica has taken the lease.\<close>

definition usurped_env :: "bytes env" where
  "usurped_env = toy_env\<lparr>lease_answer := \<lambda>h. Inr False\<rparr>"

lemma usurped_sel [simp]:
  "ucd_of usurped_env = toy_ucd" "overflow_checks usurped_env = False" "lease_answer usurped_env h = Inr False"
  "secret_exists usurped_env h = Inr False" "kube_write usurped_env h = None"
  by (simp_all add: usurped_env_def toy_env_def)

lemma usurped_fetch:
  "fetch_secrets usurped_env toy_config [\<lparr>req_name = ''db'', req_vault = None\<rparr>] (toy_world\<lparr>trace := h\<rparr>)
     = (Ok [''personal''], toy_world\<lparr>trace := h\<rparr>)"
proof -
  have "to_lowercase toy_ucd ''db'' = ''db''"
    by (simp add: to_lowercase_ascii is_ascii_def ascii_lower_def)
  then have "lookup_item toy_ucd toy_cache ''db'' None = Ok (demo_item ''c1'' None ''db'' ''personal'')"
    by (simp add: lookup_item_def toy_cache_def find_item_def in_scope_def demo_item_def)
  then show ?thesis
    by (simp add: fetch_secrets_def try_fetch_secrets_def toy_world_def toy_session_def lookup_secret_def)
      (simp add: extract_secret_def demo_item_def)
qed

lemma usurped_spec:
  "parse_sync_interval usurped_env (sync_interval (vws_spec_of toy_vws)) = Ok 300"
  "build_requests usurped_env (vws_spec_of toy_vws) = Ok [\<lparr>req_name = ''db'', req_vault = None\<rparr>]"
proof -
  have "parse_duration False ''5m'' = Ok 300"
    by (simp add: parse_duration_def parse_loop.simps strip_unit_def str_eval mul_checked_def saturating_add_def)
  then show "parse_sync_interval usurped_env (sync_interval (vws_spec_of toy_vws)) = Ok 300"
    by (simp add: parse_sync_interval_def toy_vws_def)
  show "build_requests usurped_env (vws_spec_of toy_vws) = Ok [\<lparr>req_name = ''db'', req_vault = None\<rparr>]"
    by (simp add: build_requests_Ok toy_vws_def resolved_secret_name_def non_empty_def)
qed

lemma usurped_write:
  "\<exists>body. write_secret usurped_env toy_vws vals h =
     (Ok (), h @ [SecretGet (namespace_of toy_vws) (vws_name toy_vws), SecretCreate (namespace_of toy_vws) body])"
proof -
  obtain owner where "vws_owner_ref toy_vws = Some owner" by (simp add: toy_vws_def)
  then show ?thesis
    by (simp add: write_secret_def Let_def abind_def amatch_def secret_get_opt_def kube_call_def)
qed

lemma usurped_reconcile:
  "\<exists>r w new ns body. reconcile_event usurped_env toy_config (FinalizerApply toy_vws) (toy_world\<lparr>trace := h\<rparr>) = (r, w)
     \<and> r \<noteq> Panic \<and> trace w = h @ new \<and> SecretCreate ns body \<in> set new"
proof -
  obtain body where w: "write_secret usurped_env toy_vws [''personal''] h =
     (Ok (), h @ [SecretGet (namespace_of toy_vws) (vws_name toy_vws), SecretCreate (namespace_of toy_vws) body])"
    using usurped_write by blast
  show ?thesis
    by (simp add: reconcile_event_def reconcile_apply_def usurped_spec usurped_fetch alift_def outcome_simps)
      (auto simp: azoom_def w abind_def amatch_def set_ready_status_def patch_status_def read_utc_def Let_def kube_call_def
        areturn_def)
qed

text \<open>A leader is told to terminate, and does.\<close>

lemma telling_ends:
  assumes "main_at s = TellingTasks"
  shows "\<exists>t. proceeds E c R s t \<and> main_at t = Ended \<and> trace (client t) = trace (client s) @ [LeaseStepDown]"
proof -
  let ?S = "process_step E c R"
  let ?s1 = "s\<lparr>main_at := SteppingDown, shutdown_sent := True\<rparr>"
  let ?s2 = "log [LeaseStepDown] (?s1\<lparr>main_at := Leaving\<rparr>)"
  have "?S s ?s1" using assms by (rule process_step.tell)
  moreover have "?S ?s1 ?s2" by (rule process_step.step_down) simp
  moreover have "?S ?s2 (?s2\<lparr>main_at := Ended\<rparr>)" by (rule process_step.leave) simp
  ultimately have "proceeds E c R s (?s2\<lparr>main_at := Ended\<rparr>)"
    by (meson converse_rtranclp_into_rtranclp r_into_rtranclp)
  then show ?thesis by (intro exI conjI) (assumption, simp_all)
qed

lemma terminated:
  "\<exists>s. proceeds toy_env toy_config prompt (serving toy_world) s \<and> main_at s = Ended \<and> trace (client s) = [LeaseStepDown]"
proof -
  let ?s1 = "(serving toy_world)\<lparr>stopping := True\<rparr>"
  let ?s2 = "?s1\<lparr>main_at := TellingTasks\<rparr>"
  have "process_step toy_env toy_config prompt (serving toy_world) ?s1"
    by (rule process_step.signal) (simp add: serving_def)
  moreover have "process_step toy_env toy_config prompt ?s1 ?s2"
    by (rule process_step.controller_ends) (simp_all add: serving_def prompt_def)
  moreover obtain t where "proceeds toy_env toy_config prompt ?s2 t" "main_at t = Ended" "trace (client t) = [LeaseStepDown]"
    using telling_ends [of ?s2 toy_env toy_config prompt] by (auto simp: serving_def toy_world_def)
  ultimately show ?thesis by (meson converse_rtranclp_into_rtranclp)
qed

text \<open>A renewal finds the lease with another replica, and the controller is told.\<close>

lemma renewal_lost:
  "\<exists>s. proceeds usurped_env toy_config prompt (serving toy_world) s \<and> lease_lost s
     \<and> trace (client s) = [Slept (nanos RENEW_INTERVAL), LeaseTry, LeaseStepDown]"
proof -
  let ?S = "process_step usurped_env toy_config prompt" and ?h = "[Slept (nanos RENEW_INTERVAL), LeaseTry]"
  let ?R = "\<lambda>r h. renewing toy_world r h"
  have "proceeds usurped_env toy_config prompt (serving toy_world) (?R GivingUp ?h)"
    using renewing_turn [of usurped_env toy_config prompt toy_world 0 "[]"]
    by (simp add: renewing_start after_try_def renew_round_def toy_world_def)
  moreover have "?S (?R GivingUp ?h) (?R Signalling (?h @ [LeaseStepDown]))"
    using process_step.give_up [of "?R GivingUp ?h" usurped_env toy_config prompt] by simp
  moreover have "?S (?R Signalling (?h @ [LeaseStepDown])) ((?R Gone (?h @ [LeaseStepDown]))\<lparr>lease_lost := True\<rparr>)"
    using process_step.send_lost [of "?R Signalling (?h @ [LeaseStepDown])" usurped_env toy_config prompt] by simp
  ultimately have "proceeds usurped_env toy_config prompt (serving toy_world)
      ((?R Gone (?h @ [LeaseStepDown]))\<lparr>lease_lost := True\<rparr>)" by (meson rtranclp.rtrancl_into_rtrancl)
  then show ?thesis by (intro exI conjI) (assumption, simp_all)
qed

section \<open>Why a leader stops\<close>

text \<open>The answers to the renewal attempts among the events \<open>es\<close> after \<open>h\<close>.\<close>

fun lease_answers :: "'rsa env \<Rightarrow> history \<Rightarrow> event list \<Rightarrow> (string + bool) list" where
  "lease_answers E h [] = []"
| "lease_answers E h (e # es) =
     (if e = LeaseTry then lease_answer E (h @ [e]) # lease_answers E (h @ [e]) es else lease_answers E (h @ [e]) es)"

lemma lease_answers_append:
  "lease_answers E h (es @ new) = lease_answers E h es @ lease_answers E (h @ es) new"
  by (induction es arbitrary: h) simp_all

lemma lease_answers_none: "filter is_lease es = [] \<Longrightarrow> lease_answers E h es = []"
  by (induction es arbitrary: h) (auto split: if_splits)

definition failure :: "string + bool \<Rightarrow> bool" where
  "failure a \<longleftrightarrow> (case a of Inl e \<Rightarrow> True | Inr b \<Rightarrow> False)"

text \<open>\<open>n\<close> failures in a row at the end, after a success or at the beginning.\<close>

definition failing_streak :: "nat \<Rightarrow> (string + bool) list \<Rightarrow> bool" where
  "failing_streak n as \<longleftrightarrow> (\<exists>before fails. as = before @ fails \<and> length fails = n \<and> list_all failure fails
     \<and> (before = [] \<or> last before = Inr True))"

definition cause :: "(string + bool) list \<Rightarrow> bool" where
  "cause as \<longleftrightarrow> suffix [Inr False] as \<or> failing_streak error_threshold as"

lemma failing_streak_0: "as = [] \<or> last as = Inr True \<Longrightarrow> failing_streak 0 as"
  unfolding failing_streak_def by (intro exI [of _ as] exI [of _ "[]"]) auto

lemma failing_streak_Suc: "failing_streak n as \<Longrightarrow> failure a \<Longrightarrow> failing_streak (Suc n) (as @ [a])"
  unfolding failing_streak_def by (elim exE, rename_tac before fails, rule_tac x = before in exI, rule_tac x = "fails @ [a]" in exI) simp

fun renew_clause :: "(string + bool) list \<Rightarrow> renewer \<Rightarrow> bool" where
  "renew_clause as (Sleeping n) = (n < error_threshold \<and> failing_streak n as)"
| "renew_clause as (Trying n) = (n < error_threshold \<and> failing_streak n as)"
| "renew_clause as _ = cause as"

lemma renew_clause_try:
  assumes "renew_clause as (Trying n)"
  shows "renew_clause (as @ [lease_answer E h]) (after_try E n h)"
proof (cases "lease_answer E h")
  case (Inl e)
  then have "failing_streak (Suc n) (as @ [lease_answer E h])"
    using assms by (intro failing_streak_Suc) (simp_all add: failure_def)
  moreover have "Suc n = error_threshold" if "error_threshold \<le> Suc n" using that assms by simp
  ultimately show ?thesis by (auto simp: after_try_def Inl cause_def)
next
  case (Inr b)
  then show ?thesis
    by (cases b) (simp_all add: after_try_def cause_def threshold_3 failing_streak_0 suffix_def)
qed

definition renew_inv :: "'rsa env \<Rightarrow> world \<Rightarrow> process \<Rightarrow> bool" where
  "renew_inv E w s \<longleftrightarrow> (lease_lost s \<longrightarrow> renewer s = Gone)
     \<and> (\<exists>es. trace (client s) = trace w @ es \<and> renew_clause (lease_answers E (trace w) es) (renewer s)
          \<and> (gave_up (renewer s) \<longrightarrow> LeaseStepDown \<in> set es))"

lemma renew_inv_step:
  assumes "renew_inv E w s" and "process_step E c R s t"
  shows "renew_inv E w t"
proof -
  obtain es where es: "trace (client s) = trace w @ es" and clause: "renew_clause (lease_answers E (trace w) es) (renewer s)"
    and down: "gave_up (renewer s) \<Longrightarrow> LeaseStepDown \<in> set es" and lost: "lease_lost s \<Longrightarrow> renewer s = Gone"
    using assms(1) unfolding renew_inv_def by blast
  have go: ?thesis
    if "lease_lost t \<longrightarrow> renewer t = Gone" "trace (client t) = trace w @ es @ new"
      "renew_clause (lease_answers E (trace w) (es @ new)) (renewer t)"
      "gave_up (renewer t) \<longrightarrow> LeaseStepDown \<in> set (es @ new)" for new
    unfolding renew_inv_def using that by (intro conjI exI [of _ "es @ new"]) simp_all
  have quietly: ?thesis
    if "lease_lost t = lease_lost s" "renewer t = renewer s" "trace (client t) = trace (client s) @ new"
      "filter is_lease new = []" for new
    by (rule go [of new])
      (use that es clause down lost in \<open>simp_all add: lease_answers_append lease_answers_none\<close>)
  show ?thesis
    using assms(2)
  proof cases
    case (renew_sleep n)
    then show ?thesis
      by (intro go [of "[Slept (nanos RENEW_INTERVAL)]"]) (use es clause lost in \<open>auto simp: lease_answers_append\<close>)
  next
    case (renew_try n)
    have "renew_clause (lease_answers E (trace w) es @ [lease_answer E (trace w @ es @ [LeaseTry])])
        (after_try E n (trace w @ es @ [LeaseTry]))"
      by (rule renew_clause_try) (use clause renew_try in simp)
    then show ?thesis
      by (intro go [of "[LeaseTry]"]) (use renew_try es lost in \<open>auto simp: lease_answers_append\<close>)
  next
    case give_up
    then show ?thesis
      by (intro go [of "[LeaseStepDown]"]) (use es clause lost in \<open>auto simp: lease_answers_append\<close>)
  next
    case send_lost
    then show ?thesis by (intro go [of "[]"]) (use es clause down in simp_all)
  next
    case (finish n e r w')
    then show ?thesis using reconcile_adds [OF finish(4)] quietly by auto
  next
    case (crash n e w')
    then show ?thesis using reconcile_adds [OF crash(4)] quietly by auto
  next
    case (background b r w')
    then show ?thesis using background_adds [OF background(4)] quietly by auto
  next
    case step_down
    then show ?thesis
      by (intro go [of "[LeaseStepDown]"]) (use es clause lost in \<open>auto simp: lease_answers_append\<close>)
  qed (use quietly [of "[]"] in simp)+
qed

interpretation renewal_system: invariant_system "\<lambda>s. s = serving w" "process_step E c R" "renew_inv E w"
  for E :: "'rsa env" and c R w
proof
  show "renew_inv E w s" if "s = serving w" for s
    using that by (simp add: renew_inv_def serving_def threshold_3 failing_streak_0)
qed (rule renew_inv_step)

section \<open>Properties\<close>

text \<open>C9. A graceful end: when a leader's \<open>main\<close> has returned, by a signal or a lost lease, in whatever order
  its tasks ran, the background tasks had been told to stop and no reconcile was left in flight; \<open>main\<close>
  stepped down from the lease after the last call to the Kubernetes API for a resource or a Secret.
  When the renewal task had stepped down before (the lease was lost), no lease call follows the
  step-down of \<open>main\<close>; only a renewal task that had not given up may still try to renew.\<close>

theorem shutdown_graceful:
  assumes "rtranclp (process_step E c R) (serving w) s" and "graceful R" and "main_at s = Ended"
  shows "shutdown_sent s \<and> in_flight s = 0
    \<and> (\<exists>before after. trace (client s) = trace w @ before @ [LeaseStepDown] @ after
         \<and> filter is_kube after = []
         \<and> (LeaseStepDown \<in> set before \<longrightarrow> LeaseTry \<notin> set after \<and> LeaseStepDown \<notin> set after))"
proof -
  have "rtranclp (\<lambda>s t. graceful R \<and> process_step E c R s t) (serving w) s" using assms(1,2) by simp
  then have inv: "shutdown_inv w s" by (rule shutdown_system.reachable_inv [rotated]) simp
  then obtain es where es: "trace (client s) = trace w @ es" "lease_clause True (gave_up (renewer s)) es"
    using assms(3) by (auto simp: shutdown_inv_def)
  from es(2) obtain before after where "es = before @ [LeaseStepDown] @ after" "filter is_kube after = []"
    "LeaseStepDown \<in> set before \<longrightarrow> gave_up (renewer s) \<and> filter is_lease after = []"
    by (rule lease_clause_releasedE)
  moreover have "LeaseTry \<notin> set after \<and> LeaseStepDown \<notin> set after" if "filter is_lease after = []"
    using that by (auto simp: filter_empty_conv)
  ultimately show ?thesis using inv assms(3) es(1) by (auto simp: shutdown_inv_def)
qed

theorem shutdown_graceful_witness:
  "\<exists>s. rtranclp (process_step toy_env toy_config prompt) (serving toy_world) s \<and> main_at s = Ended \<and> shutdown_sent s
     \<and> (\<exists>before after. trace (client s) = before @ [LeaseStepDown] @ after \<and> filter is_kube after = [])"
proof -
  obtain s where s: "rtranclp (process_step toy_env toy_config prompt) (serving toy_world) s" "main_at s = Ended"
    using terminated by blast
  have "trace toy_world = []" by (simp add: toy_world_def)
  with s shutdown_graceful [OF s(1) prompt_graceful s(2)] show ?thesis by auto
qed

text \<open>C32. A leader gives up its leadership only for cause: in whatever order the tasks of the process run,
  when the controller is told that the lease is lost, the renewal task has stepped down, and the
  answers to its attempts end with the lease held by another replica, or with as many failures in a
  row as the threshold, and no success among them.\<close>

theorem lease_lost_for_cause:
  assumes "rtranclp (process_step E c R) (serving w) s" and "trace (client s) = trace w @ es" and "lease_lost s"
  shows "LeaseStepDown \<in> set es
    \<and> (\<exists>before. lease_answers E (trace w) es = before @ [Inr False]
         \<or> (\<exists>fails. lease_answers E (trace w) es = before @ fails \<and> length fails = error_threshold
              \<and> list_all (\<lambda>a. \<exists>err. a = Inl err) fails \<and> (before = [] \<or> last before = Inr True)))"
proof -
  have "renew_inv E w s" using renewal_system.reachable_inv [OF refl assms(1)] .
  then have "renewer s = Gone" "renew_clause (lease_answers E (trace w) es) (renewer s)"
    "gave_up (renewer s) \<longrightarrow> LeaseStepDown \<in> set es"
    using assms(2,3) by (auto simp: renew_inv_def)
  moreover have "failure = (\<lambda>a. \<exists>err. a = Inl err)" by (auto simp: failure_def fun_eq_iff split: sum.split)
  ultimately show ?thesis
    unfolding cause_def failing_streak_def suffix_def by (auto simp: cause_def failing_streak_def suffix_def)
qed

theorem lease_lost_for_cause_witness:
  "\<exists>s es. rtranclp (process_step usurped_env toy_config prompt) (serving toy_world) s \<and> lease_lost s
     \<and> trace (client s) = es \<and> LeaseStepDown \<in> set es \<and> suffix [Inr False] (lease_answers usurped_env [] es)"
proof -
  obtain s where s: "rtranclp (process_step usurped_env toy_config prompt) (serving toy_world) s" "lease_lost s"
    "trace (client s) = trace toy_world @ [Slept (nanos RENEW_INTERVAL), LeaseTry, LeaseStepDown]"
    using renewal_lost by (auto simp: toy_world_def)
  from lease_lost_for_cause [OF s(1,3,2)] s show ?thesis
    by (intro exI [of _ s] exI [of _ "[Slept (nanos RENEW_INTERVAL), LeaseTry, LeaseStepDown]"])
      (auto simp: toy_world_def suffix_def)
qed

text \<open>The renewal task of the process does what \<open>keep_renewing\<close> does: if that returns, its steps
  alone lead from the start of the serving life to the same history, and the controller is told.\<close>

theorem renewal_task_refines_keep_renewing:
  assumes "keep_renewing E (trace w) = Some h"
  shows "\<exists>s. rtranclp (process_step E c R) (serving w) s \<and> trace (client s) = h \<and> renewer s = Gone \<and> lease_lost s"
proof -
  obtain k where k: "stops_at E (trace w) k" "\<And>j. j < k \<Longrightarrow> \<not> stops_at E (trace w) j"
    "h = rounds renew_round (Suc k) (trace w) @ [LeaseStepDown]"
    using assms by (auto simp: keep_renewing_def renew_loop_iff)
  let ?h = "rounds renew_round (Suc k) (trace w)" and ?R = "\<lambda>r h. renewing w r h"
  have "proceeds E c R (?R (Sleeping (errors_before E (trace w) k)) (rounds renew_round k (trace w))) (?R GivingUp ?h)"
    using renewing_turn [of E c R w "errors_before E (trace w) k" "rounds renew_round k (trace w)"] k(1)
    by (simp add: after_try_turn rounds_Suc)
  from rtranclp_trans [OF renewing_reaches [OF k(2)] this]
  have "proceeds E c R (serving w) (?R GivingUp ?h)" by (simp add: renewing_start)
  moreover have "process_step E c R (?R GivingUp ?h) (?R Signalling h)"
    using process_step.give_up [of "?R GivingUp ?h" E c R] k(3) by simp
  moreover have "process_step E c R (?R Signalling h) ((?R Gone h)\<lparr>lease_lost := True\<rparr>)"
    using process_step.send_lost [of "?R Signalling h" E c R] by simp
  ultimately show ?thesis
    by (intro exI [of _ "(?R Gone h)\<lparr>lease_lost := True\<rparr>"]) simp
qed

theorem renewal_task_refines_keep_renewing_witness:
  "\<exists>s. rtranclp (process_step usurped_env toy_config prompt) (serving toy_world) s \<and> renewer s = Gone
     \<and> trace (client s) = [Slept (nanos RENEW_INTERVAL), LeaseTry, LeaseStepDown]"
proof -
  have "keep_renewing usurped_env (trace toy_world) = Some [Slept (nanos RENEW_INTERVAL), LeaseTry, LeaseStepDown]"
    by (simp add: keep_renewing_def renew_loop.simps renew_round_def toy_world_def)
  from renewal_task_refines_keep_renewing [OF this, of toy_config prompt] show ?thesis by blast
qed

text \<open>C38. Two writers: a leader whose renewal finds the lease with another replica steps down first and
  tells its controller afterwards; in between, with a controller that shuts down gracefully, a
  reconcile can start and write a Secret although the lease has been given up.\<close>

theorem writes_after_step_down:
  "\<exists>(E :: bytes env) c R w s t h ns body.
     graceful R \<and> rtranclp (process_step E c R) (serving w) s \<and> in_flight s = 0
     \<and> trace (client s) = h @ [LeaseTry, LeaseStepDown] \<and> lease_answer E (h @ [LeaseTry]) = Inr False
     \<and> rtranclp (process_step E c R) s t \<and> \<not> stopping t
     \<and> (\<exists>after. trace (client t) = trace (client s) @ after \<and> SecretCreate ns body \<in> set after)"
proof -
  let ?h = "[Slept (nanos RENEW_INTERVAL)]" and ?S = "process_step usurped_env toy_config prompt"
  let ?s = "renewing toy_world Signalling (?h @ [LeaseTry, LeaseStepDown])"
  have "proceeds usurped_env toy_config prompt (serving toy_world) (renewing toy_world GivingUp (?h @ [LeaseTry]))"
    using renewing_turn [of usurped_env toy_config prompt toy_world 0 "[]"]
    by (simp add: renewing_start after_try_def renew_round_def toy_world_def)
  moreover have "?S (renewing toy_world GivingUp (?h @ [LeaseTry])) ?s"
    using process_step.give_up [of "renewing toy_world GivingUp (?h @ [LeaseTry])" usurped_env toy_config prompt] by simp
  ultimately have s: "proceeds usurped_env toy_config prompt (serving toy_world) ?s" by simp
  have idle: "in_flight ?s = 0" "\<not> stopping ?s" by (simp_all add: renewing_def serving_def)
  let ?u = "?s\<lparr>in_flight := 1\<rparr>"
  obtain r w new ns body where rec: "reconcile_event usurped_env toy_config (FinalizerApply toy_vws) (client ?u) = (r, w)"
    "r \<noteq> Panic" and new: "trace w = trace (client ?s) @ new" "SecretCreate ns body \<in> set new"
    using usurped_reconcile [of "?h @ [LeaseTry, LeaseStepDown]"] by auto
  let ?t = "?u\<lparr>in_flight := 0, client := w\<rparr>"
  have "?S ?s ?u"
    using process_step.start [of ?s prompt usurped_env toy_config] idle by (simp add: prompt_def)
  moreover have "?S ?u ?t"
    using process_step.finish [of ?u 0 usurped_env toy_config "FinalizerApply toy_vws" r w prompt] rec by simp
  ultimately have t: "proceeds usurped_env toy_config prompt ?s ?t"
    by (meson converse_rtranclp_into_rtranclp r_into_rtranclp)
  have written: "trace (client ?t) = trace (client ?s) @ new" using new(1) by simp
  have lost: "trace (client ?s) = ?h @ [LeaseTry, LeaseStepDown]" "lease_answer usurped_env (?h @ [LeaseTry]) = Inr False"
    "\<not> stopping ?t" using idle by simp_all
  show ?thesis
    by (intro exI conjI) (rule prompt_graceful, rule s, rule idle, rule lost, rule lost, rule t, rule lost, rule written, rule new)
qed

text \<open>The renewal task is not stopped before the last step-down: a leader told to terminate can step
  down, win the lease again in its next renewal, and end while it holds the lease.\<close>

theorem ends_holding_lease:
  "\<exists>(E :: bytes env) c R w s h.
     graceful R \<and> rtranclp (process_step E c R) (serving w) s \<and> main_at s = Ended
     \<and> trace (client s) = h @ [LeaseStepDown, LeaseTry] \<and> lease_answer E (trace (client s)) = Inr True"
proof -
  let ?S = "process_step toy_env toy_config prompt"
  let ?s0 = "serving toy_world" and ?h = "[Slept (nanos RENEW_INTERVAL)]"
  let ?s1 = "log ?h (?s0\<lparr>renewer := Trying 0\<rparr>)"
  let ?s2 = "?s1\<lparr>stopping := True\<rparr>"
  let ?s3 = "?s2\<lparr>main_at := TellingTasks\<rparr>"
  let ?s4 = "?s3\<lparr>main_at := SteppingDown, shutdown_sent := True\<rparr>"
  let ?s5 = "log [LeaseStepDown] (?s4\<lparr>main_at := Leaving\<rparr>)"
  let ?s6 = "log [LeaseTry] (?s5\<lparr>renewer := after_try toy_env 0 (trace (client ?s5) @ [LeaseTry])\<rparr>)"
  let ?s7 = "?s6\<lparr>main_at := Ended\<rparr>"
  have 1: "?S ?s0 ?s1" by (rule process_step.renew_sleep) (simp_all add: serving_def)
  have 2: "?S ?s1 ?s2" by (rule process_step.signal) (simp add: serving_def)
  have 3: "?S ?s2 ?s3" by (rule process_step.controller_ends) (simp_all add: serving_def prompt_def)
  have 4: "?S ?s3 ?s4" by (rule process_step.tell) simp
  have 5: "?S ?s4 ?s5" by (rule process_step.step_down) simp
  have 6: "?S ?s5 ?s6" by (rule process_step.renew_try) simp_all
  have 7: "?S ?s6 ?s7" by (rule process_step.leave) simp
  from 1 2 3 4 5 6 7 have "proceeds toy_env toy_config prompt ?s0 ?s7"
    by (meson converse_rtranclp_into_rtranclp r_into_rtranclp)
  then show ?thesis
    by (intro exI [of _ toy_env] exI [of _ toy_config] exI [of _ prompt] exI [of _ toy_world] exI [of _ ?s7]
        exI [of _ ?h] conjI) (simp_all add: serving_def toy_world_def toy_env_def server_env_def)
qed

end
