(* ===== verification/ResourceJson.thy ===== *)
theory ResourceJson
  imports Crd
begin

text \<open>
  The custom resource as it travels: what serde reads back (\<open>Deserialize\<close> of \<open>src/crd.rs\<close>, with the
  \<open>rename\<close> and \<open>default\<close> attributes), and a resource in the cluster over many reconciliations, each of
  which reads the status the one before left and merges its patch into it. The API server admits
  objects of the schema only, so a struct is read from an object (serde would also read one from an
  array of its fields). Unknown members are ignored; \<open>None\<close> is a deserialization error.
\<close>

section \<open>Reading members\<close>

text \<open>A required member, one of an \<open>Option\<close> type (absent and null are \<open>None\<close>), and one with a default.\<close>

definition required :: "(json \<Rightarrow> 'a option) \<Rightarrow> (string \<rightharpoonup> json) \<Rightarrow> string \<Rightarrow> 'a option" where
  "required f m k = Option.bind (m k) f"

definition optional :: "(json \<Rightarrow> 'a option) \<Rightarrow> (string \<rightharpoonup> json) \<Rightarrow> string \<Rightarrow> 'a option option" where
  "optional f m k =
     (case m k of
        None \<Rightarrow> Some None
      | Some j \<Rightarrow> if j = JNull then Some None else map_option Some (f j))"

definition defaulted :: "'a \<Rightarrow> (json \<Rightarrow> 'a option) \<Rightarrow> (string \<rightharpoonup> json) \<Rightarrow> string \<Rightarrow> 'a option" where
  "defaulted d f m k = (case m k of None \<Rightarrow> Some d | Some j \<Rightarrow> f j)"

fun de_string :: "json \<Rightarrow> string option" where
  "de_string (JStr s) = Some s"
| "de_string _ = None"

fun de_bool :: "json \<Rightarrow> bool option" where
  "de_bool (JBool b) = Some b"
| "de_bool _ = None"

definition i64_range :: "int \<Rightarrow> bool" where
  "i64_range n \<longleftrightarrow> - (2 ^ 63) \<le> n \<and> n < 2 ^ 63"

fun de_i64 :: "json \<Rightarrow> int option" where
  "de_i64 (JNum n) = (if i64_range n then Some n else None)"
| "de_i64 _ = None"

fun de_list :: "(json \<Rightarrow> 'a option) \<Rightarrow> json \<Rightarrow> 'a list option" where
  "de_list f (JArr js) = those (map f js)"
| "de_list f _ = None"

fun de_object :: "((string \<rightharpoonup> json) \<Rightarrow> 'a option) \<Rightarrow> json \<Rightarrow> 'a option" where
  "de_object f (JObj m) = f m"
| "de_object f _ = None"

section \<open>The types of the resource\<close>

definition de_data_item :: "json \<Rightarrow> data_item option" where
  "de_data_item = de_object (\<lambda>m.
     Option.bind (required de_string m ''key'') (\<lambda>k.
     Option.bind (optional de_string m ''secretName'') (\<lambda>secret_name.
     Option.bind (optional de_string m ''vaultwardenSecret'') (\<lambda>legacy.
     Option.bind (optional de_string m ''vault'') (\<lambda>vlt.
       Some \<lparr>di_key = k, di_secret_name = secret_name, di_vaultwarden_secret = legacy, di_vault = vlt\<rparr>)))))"

definition de_spec :: "json \<Rightarrow> vws_spec option" where
  "de_spec = de_object (\<lambda>m.
     Option.bind (defaulted default_sync_interval de_string m ''syncInterval'') (\<lambda>interval.
     Option.bind (optional de_string m ''defaultVault'') (\<lambda>dv.
     Option.bind (required (de_list de_data_item) m ''data'') (\<lambda>its.
       Some \<lparr>sync_interval = interval, default_vault = dv, spec_data = its\<rparr>))))"

definition de_condition :: "json \<Rightarrow> status_condition option" where
  "de_condition = de_object (\<lambda>m.
     Option.bind (required de_string m ''type'') (\<lambda>t.
     Option.bind (required de_string m ''status'') (\<lambda>st.
     Option.bind (required de_string m ''reason'') (\<lambda>reason.
     Option.bind (required de_string m ''message'') (\<lambda>msg.
     Option.bind (optional de_i64 m ''observedGeneration'') (\<lambda>g.
     Option.bind (required de_string m ''lastTransitionTime'') (\<lambda>time.
       Some \<lparr>cond_type = t, cond_status = st, cond_reason = reason, cond_message = msg,
         cond_observed_generation = g, cond_last_transition_time = time\<rparr>)))))))"

definition de_status :: "json \<Rightarrow> vws_status option" where
  "de_status = de_object (\<lambda>m.
     Option.bind (defaulted False de_bool m ''ready'') (\<lambda>rdy.
     Option.bind (optional de_string m ''lastSyncTime'') (\<lambda>time.
     Option.bind (defaulted [] de_string m ''lastSyncError'') (\<lambda>err.
     Option.bind (optional de_i64 m ''observedGeneration'') (\<lambda>g.
     Option.bind (defaulted [] (de_list de_condition) m ''conditions'') (\<lambda>conds.
       Some \<lparr>ready = rdy, last_sync_time = time, last_sync_error = err, observed_generation = g,
         conditions = conds\<rparr>))))))"

text \<open>Serialization of the spec, the inverse direction.\<close>

definition data_item_json :: "data_item \<Rightarrow> json" where
  "data_item_json i = jobj
     ([(''key'', JStr (di_key i))]
      @ skip_none ''secretName'' (di_secret_name i) JStr
      @ skip_none ''vaultwardenSecret'' (di_vaultwarden_secret i) JStr
      @ skip_none ''vault'' (di_vault i) JStr)"

definition spec_json :: "vws_spec \<Rightarrow> json" where
  "spec_json s = jobj
     ((if sync_interval s = [] then [] else [(''syncInterval'', JStr (sync_interval s))])
      @ skip_none ''defaultVault'' (default_vault s) JStr
      @ [(''data'', JArr (map data_item_json (spec_data s)))])"

section \<open>Round trips\<close>

lemmas reading = required_def optional_def defaulted_def

lemma those_map_Some: "(\<And>x. x \<in> set xs \<Longrightarrow> f (g x) = Some x) \<Longrightarrow> those (map f (map g xs)) = Some xs"
  by (induction xs) auto

lemma data_item_round_trip: "de_data_item (data_item_json i) = Some i"
  by (auto simp: de_data_item_def data_item_json_def reading skip_none_def split: option.split)

text \<open>An empty interval is left out, and read back as the default.\<close>

lemma spec_round_trip:
  "de_spec (spec_json s) =
     Some (if sync_interval s = [] then s\<lparr>sync_interval := default_sync_interval\<rparr> else s)"
proof -
  have "de_list de_data_item (JArr (map data_item_json (spec_data s))) = Some (spec_data s)"
    unfolding de_list.simps by (rule those_map_Some) (rule data_item_round_trip)
  then show ?thesis
    by (auto simp: de_spec_def spec_json_def reading skip_none_def split: option.split)
qed

definition in_range :: "int option \<Rightarrow> bool" where
  "in_range g \<longleftrightarrow> (case g of None \<Rightarrow> True | Some n \<Rightarrow> i64_range n)"

definition status_in_range :: "vws_status \<Rightarrow> bool" where
  "status_in_range s \<longleftrightarrow>
     in_range (observed_generation s) \<and> list_all (\<lambda>c. in_range (cond_observed_generation c)) (conditions s)"

lemma condition_round_trip: "in_range (cond_observed_generation c) \<Longrightarrow> de_condition (condition_json c) = Some c"
  by (auto simp: de_condition_def condition_json_def reading skip_none_def in_range_def split: option.splits)

lemma status_round_trip:
  assumes "status_in_range s"
  shows "de_status (status_json s) = Some s"
proof -
  have "de_list de_condition (JArr (map condition_json (conditions s))) = Some (conditions s)"
    unfolding de_list.simps
    by (rule those_map_Some, rule condition_round_trip)
      (use assms in \<open>auto simp: status_in_range_def list_all_iff\<close>)
  then show ?thesis
    using assms
    by (auto simp: de_status_def status_json_def map_of_status_fields reading status_in_range_def in_range_def
        split: option.splits)
qed

section \<open>A resource in the cluster\<close>

text \<open>One reconciliation that ends with a status patch, at the generation \<open>g\<close> of the object: the time
  of a success, or the message and the time of a failure.\<close>

datatype sync_result = SyncedAt string | FailedAt string string

fun status_after :: "vws \<Rightarrow> sync_result \<Rightarrow> vws_status" where
  "status_after v (SyncedAt now) = ready_status v now"
| "status_after v (FailedAt msg now) = failed_status v msg now"

definition seen :: "vws \<Rightarrow> int option \<Rightarrow> vws_status option \<Rightarrow> vws" where
  "seen v g old = v\<lparr>vws_generation := g, vws_status_of := old\<rparr>"

definition sync_object ::
    "(json option \<Rightarrow> json \<Rightarrow> json) \<Rightarrow> vws \<Rightarrow> (string \<rightharpoonup> json) \<Rightarrow> int option \<times> sync_result \<Rightarrow> (string \<rightharpoonup> json) option"
  where
  "sync_object merge v m p =
     map_option
       (\<lambda>old. member_of (Some (merge (Some (JObj m)) (status_patch (status_after (seen v (fst p) old) (snd p))))))
       (optional de_status m ''status'')"

fun sync_objects ::
    "(json option \<Rightarrow> json \<Rightarrow> json) \<Rightarrow> vws \<Rightarrow> (string \<rightharpoonup> json) \<Rightarrow> (int option \<times> sync_result) list
       \<Rightarrow> (string \<rightharpoonup> json) option"
  where
  "sync_objects merge v m [] = Some m"
| "sync_objects merge v m (p # ps) = Option.bind (sync_object merge v m p) (\<lambda>m'. sync_objects merge v m' ps)"

lemma sync_objects_snoc:
  "sync_objects merge v m (ps @ [p]) = Option.bind (sync_objects merge v m ps) (\<lambda>m'. sync_object merge v m' p)"
proof (induction ps arbitrary: m)
  case Nil
  show ?case by (cases "sync_object merge v m p") simp_all
next
  case (Cons q ps)
  show ?case by (cases "sync_object merge v m q") (simp_all add: Cons.IH)
qed

text \<open>The time of the latest success.\<close>

definition latest_success :: "sync_result list \<Rightarrow> string option" where
  "latest_success rs =
     foldl (\<lambda>t r. case r of SyncedAt now \<Rightarrow> Some now | FailedAt msg now \<Rightarrow> t) None rs"

definition stored :: "(string \<rightharpoonup> json) \<Rightarrow> vws_status option \<Rightarrow> bool" where
  "stored m old \<longleftrightarrow> m ''status'' = map_option status_json old
     \<and> (case old of None \<Rightarrow> True | Some s \<Rightarrow> status_in_range s \<and> distinct (map cond_type (conditions s)))"

definition time_of :: "vws_status option \<Rightarrow> string option" where
  "time_of old = (case old of None \<Rightarrow> None | Some s \<Rightarrow> last_sync_time s)"

lemma status_json_not_null [simp]: "status_json s \<noteq> JNull"
  by (simp add: status_json_def)

lemma stored_read: "stored m old \<Longrightarrow> optional de_status m ''status'' = Some old"
  by (cases old) (simp_all add: stored_def optional_def status_round_trip)

lemma status_after_covers: "covers (status_after (seen v g old) r) old"
  using ready_covers failed_covers [of "seen v g old"] by (cases r) (simp_all add: seen_def)

lemma upsert_in_range:
  "list_all P cs \<Longrightarrow> P y \<Longrightarrow> list_all P (upsert_condition cs y)"
  by (cases rule: conds.upsert_cases [where xs = cs and y = y]) (auto simp: list_all_iff)

lemma status_after_in_range:
  assumes "in_range g" and "stored m old"
  shows "status_in_range (status_after (seen v g old) r)
    \<and> distinct (map cond_type (conditions (status_after (seen v g old) r)))"
proof -
  have gen: "i64_range (generation_or_zero (seen v g old))"
    using assms(1) by (simp add: in_range_def seen_def generation_or_zero_def i64_range_def split: option.splits)
  have "list_all (\<lambda>c. in_range (cond_observed_generation c)) (previous_conditions (seen v g old))"
    "distinct (map cond_type (previous_conditions (seen v g old)))"
    using assms(2) by (auto simp: stored_def previous_conditions_def seen_def status_in_range_def split: option.splits)
  moreover from this have "list_all (\<lambda>c. in_range (cond_observed_generation c)) (filter P (previous_conditions (seen v g old)))"
    "distinct (map cond_type (filter P (previous_conditions (seen v g old))))" for P
    by (auto simp: list_all_iff intro: distinct_map_filter)
  moreover have "in_range (cond_observed_generation (sync_condition (seen v g old) t st reason msg now))"
    for t st reason msg now using gen by (simp add: sync_condition_def in_range_def)
  ultimately show ?thesis
    using gen
    by (cases r) (simp_all add: ready_status_def failed_status_def Let_def status_in_range_def in_range_def
        upsert_in_range upsert_distinct)
qed

lemma sync_object_step:
  assumes "merge_laws merge" and "stored m old" and "in_range g"
  shows "\<exists>m'. sync_object merge v m (g, r) = Some m' \<and> stored m' (Some (status_after (seen v g old) r))"
proof -
  have "m ''status'' = map_option status_json old" using assms(2) by (simp add: stored_def)
  with assms(1) status_after_covers
  have "member_of (Some (merge (Some (JObj m)) (status_patch (status_after (seen v g old) r)))) ''status''
      = Some (status_json (status_after (seen v g old) r))" by (rule status_merge)
  then show ?thesis
    using status_after_in_range [OF assms(3,2)] by (simp add: sync_object_def stored_read [OF assms(2)] stored_def)
qed

lemma time_of_status_after:
  "last_sync_time (status_after (seen v g old) r) =
     (case r of SyncedAt now \<Rightarrow> Some now | FailedAt msg now \<Rightarrow> time_of old)"
  by (cases r) (simp_all add: ready_status_def failed_status_def Let_def time_of_def seen_def)

lemma sync_objects_stored:
  assumes "merge_laws merge" and "m ''status'' = None"
    and "list_all in_range (map fst ps)"
  shows "\<exists>m' old. sync_objects merge v m ps = Some m' \<and> stored m' old \<and> time_of old = latest_success (map snd ps)"
  using assms(3)
proof (induction ps rule: rev_induct)
  case Nil
  then show ?case using assms(2) by (intro exI [of _ m] exI [of _ None]) (simp add: stored_def time_of_def latest_success_def)
next
  case (snoc p ps)
  obtain g r where p: "p = (g, r)" by (cases p)
  from snoc obtain m' old where run: "sync_objects merge v m ps = Some m'" "stored m' old"
    "time_of old = latest_success (map snd ps)" by auto
  have "in_range g" using snoc.prems by (simp add: p)
  from sync_object_step [OF assms(1) run(2) this]
  obtain m'' where "sync_object merge v m' (g, r) = Some m''" "stored m'' (Some (status_after (seen v g old) r))"
    by blast
  moreover have "time_of (Some (status_after (seen v g old) r)) = latest_success (map snd (ps @ [p]))"
    using run(3) unfolding time_of_def option.case time_of_status_after
    by (cases r) (simp_all add: p latest_success_def time_of_def)
  ultimately show ?case
    using run(1) by (intro exI conjI) (simp_all add: sync_objects_snoc p)
qed

section \<open>Properties\<close>

text \<open>C24. The status tells the whole history: from a new resource, after any sequence of reconciliations
  that each read the object and merge their patch into it, the object can be read back, \<open>ready\<close> and
  \<open>lastSyncError\<close> are those of the last reconciliation, \<open>lastSyncTime\<close> is the time of the latest success
  however many failures followed, \<open>observedGeneration\<close> is the generation seen last, and among the
  conditions, of pairwise different types, \<open>Ready\<close> is true after a success and false after a
  failure, with the failure's message, and \<open>SyncFailed\<close> is there exactly after a failure.\<close>

theorem status_tells_history:
  assumes "merge_laws merge" and "m ''status'' = None"
    and "list_all in_range (map fst ps @ [g])"
  shows "\<exists>m' s. sync_objects merge v m (ps @ [(g, r)]) = Some m' \<and> optional de_status m' ''status'' = Some (Some s)
    \<and> (ready s, last_sync_error s) = (case r of SyncedAt now \<Rightarrow> (True, []) | FailedAt msg now \<Rightarrow> (False, msg))
    \<and> last_sync_time s = latest_success (map snd ps @ [r])
    \<and> observed_generation s = Some (generation_or_zero (seen v g None))
    \<and> distinct (map cond_type (conditions s))
    \<and> map_option (\<lambda>c. (cond_status c, cond_message c)) (condition_of (conditions s) CONDITION_READY)
        = Some (case r of SyncedAt now \<Rightarrow> (''True'', ''Vault secrets synced successfully'')
                        | FailedAt msg now \<Rightarrow> (''False'', msg))
    \<and> map_option (\<lambda>c. (cond_status c, cond_message c)) (condition_of (conditions s) CONDITION_SYNC_FAILED)
        = (case r of SyncedAt now \<Rightarrow> None | FailedAt msg now \<Rightarrow> Some (''True'', msg))"
proof -
  have "list_all in_range (map fst ps)" using assms(3) by simp
  from sync_objects_stored [where m = m and ps = ps, OF assms(1,2) this]
  obtain m1 old where run: "sync_objects merge v m ps = Some m1" "stored m1 old"
    "time_of old = latest_success (map snd ps)" by blast
  let ?s = "status_after (seen v g old) r"
  have g: "generation_or_zero (seen v g old) = generation_or_zero (seen v g None)"
    by (simp add: seen_def generation_or_zero_def)
  have "in_range g" using assms(3) by simp
  from sync_object_step [OF assms(1) run(2) this]
  obtain m2 where m2: "sync_object merge v m1 (g, r) = Some m2" "stored m2 (Some ?s)" by blast
  have "last_sync_time ?s = latest_success (map snd ps @ [r])"
    unfolding time_of_status_after run(3) by (cases r) (simp_all add: latest_success_def)
  moreover have "(ready ?s, last_sync_error ?s) = (case r of SyncedAt now \<Rightarrow> (True, []) | FailedAt msg now \<Rightarrow> (False, msg))"
    "observed_generation ?s = Some (generation_or_zero (seen v g None))"
    by (cases r; simp add: ready_status_def failed_status_def Let_def g)+
  moreover have "CONDITION_READY \<noteq> CONDITION_SYNC_FAILED"
    by (simp add: CONDITION_READY_def CONDITION_SYNC_FAILED_def)
  moreover have "sync_objects merge v m (ps @ [(g, r)]) = Some m2" by (simp add: sync_objects_snoc run(1) m2(1))
  ultimately show ?thesis
    using m2(2) stored_read [OF m2(2)]
    by (intro exI [of _ m2] exI [of _ ?s], cases r)
      (simp_all add: stored_def ready_status_def failed_status_def Let_def condition_of_upsert condition_of_filter
        sync_condition_def)
qed

theorem status_tells_history_witness:
  "\<exists>m s. sync_objects (\<lambda>t p. rfc_merge p t) toy_vws Map.empty
       ([(Some 1, FailedAt ''down'' ''t0''), (Some 1, SyncedAt ''t1'')] @ [(Some 2, FailedAt ''gone'' ''t2'')]) = Some m
     \<and> optional de_status m ''status'' = Some (Some s)
     \<and> \<not> ready s \<and> last_sync_error s = ''gone'' \<and> last_sync_time s = Some ''t1''
     \<and> observed_generation s = Some 2"
proof -
  note run = status_tells_history [where m = Map.empty and v = toy_vws and g = "Some 2" and r = "FailedAt ''gone'' ''t2''"
      and ps = "[(Some 1, FailedAt ''down'' ''t0''), (Some 1, SyncedAt ''t1'')]", OF rfc_merge_laws]
  have "list_all in_range (map fst [(Some 1, FailedAt ''down'' ''t0''), (Some 1, SyncedAt ''t1'')] @ [Some 2])"
    by (simp add: in_range_def i64_range_def)
  from run [OF _ this] show ?thesis
    by (simp add: latest_success_def seen_def generation_or_zero_def del: sync_objects.simps) metis
qed

end
