(* ===== verification/ResourceTests.thy ===== *)
theory ResourceTests
  imports Controller ResourceJson
begin

text \<open>
  The unit tests of \<open>src/duration.rs\<close>, \<open>src/crd.rs\<close> and \<open>src/controller.rs\<close>, as boolean functions over the
  model: the assertions of the program's own authors hold for the definitions of this development.
  Resources that the tests parse from YAML are written as the records serde makes of them (an absent
  field is its default), or, where the parsing is what is tested, as the objects the YAML denotes.
\<close>

section \<open>Assertions\<close>

fun is_err :: "('e, 'a) outcome \<Rightarrow> bool" where
  "is_err (Err e) = True"
| "is_err _ = False"

text \<open>An assertion on an unwrapped value, on an unwrapped error, and on the first element.\<close>

fun ok_and :: "('e, 'a) outcome \<Rightarrow> ('a \<Rightarrow> bool) \<Rightarrow> bool" where
  "ok_and (Ok a) p = p a"
| "ok_and _ p = False"

fun err_and :: "('e, 'a) outcome \<Rightarrow> ('e \<Rightarrow> bool) \<Rightarrow> bool" where
  "err_and (Err e) p = p e"
| "err_and _ p = False"

fun at_0 :: "('a \<Rightarrow> bool) \<Rightarrow> 'a list \<Rightarrow> bool" where
  "at_0 p [] = False"
| "at_0 p (x # xs) = p x"

text \<open>\<open>value["key"]\<close> of \<open>serde_json\<close>: an absent member reads as null.\<close>

fun json_index :: "json \<Rightarrow> string \<Rightarrow> json" where
  "json_index (JObj m) k = (case m k of Some v \<Rightarrow> v | None \<Rightarrow> JNull)"
| "json_index _ k = JNull"

section \<open>Tests\<close>

definition duration_tests :: "bool \<Rightarrow> bool" where
  "duration_tests oc \<longleftrightarrow>
     parse_duration oc ''5m'' = Ok 300
     \<and> parse_duration oc ''1h'' = Ok 3600
     \<and> parse_duration oc ''1h30m'' = Ok 5400
     \<and> parse_duration oc ''30s'' = Ok 30
     \<and> is_err (parse_duration oc [])
     \<and> is_err (parse_duration oc ''abc'') \<and> is_err (parse_duration oc ''5x'')"

text \<open>An entry of \<open>data\<close>: \<open>key\<close>, \<open>secretName\<close>, \<open>vaultwardenSecret\<close>, \<open>vault\<close>.\<close>

definition entry :: "string \<Rightarrow> string option \<Rightarrow> string option \<Rightarrow> string option \<Rightarrow> data_item" where
  "entry k secret_name legacy vlt =
     \<lparr>di_key = k, di_secret_name = secret_name, di_vaultwarden_secret = legacy, di_vault = vlt\<rparr>"

definition spec_of :: "string option \<Rightarrow> data_item list \<Rightarrow> vws_spec" where
  "spec_of default_v its = \<lparr>sync_interval = default_sync_interval, default_vault = default_v, spec_data = its\<rparr>"

definition resolved_secret_name_tests :: bool where
  "resolved_secret_name_tests \<longleftrightarrow>
     resolved_secret_name (entry ''k'' (Some ''my-item'') None None) = Some ''my-item''
     \<and> resolved_secret_name (entry ''k'' None (Some ''legacy-item'') None) = Some ''legacy-item''
     \<and> resolved_secret_name (entry ''k'' (Some ''new'') (Some ''old'') None) = Some ''new''
     \<and> resolved_secret_name (entry ''k'' None None None) = None
     \<and> resolved_secret_name (entry ''k'' (Some []) (Some ''old'') None) = Some ''old''"

definition spec_parses :: "(string \<times> json) list \<Rightarrow> (vws_spec \<Rightarrow> bool) \<Rightarrow> bool" where
  "spec_parses kvs p = (case de_spec (jobj kvs) of None \<Rightarrow> False | Some spec \<Rightarrow> p spec)"

definition spec_vault_tests :: bool where
  "spec_vault_tests \<longleftrightarrow>
     spec_parses
       [(''defaultVault'', JStr ''Kubernetes - Common''),
        (''data'', JArr
           [jobj [(''key'', JStr ''a''), (''secretName'', JStr ''item-a''), (''vault'', JStr ''Kubernetes - Apollo'')],
            jobj [(''key'', JStr ''b''), (''secretName'', JStr ''item-b'')]])]
       (\<lambda>spec. default_vault spec = Some ''Kubernetes - Common''
          \<and> at_0 (\<lambda>i. di_vault i = Some ''Kubernetes - Apollo'') (spec_data spec)
          \<and> at_0 (\<lambda>i. di_vault i = None) (tl (spec_data spec)))
     \<and> spec_parses [(''data'', JArr [jobj [(''key'', JStr ''a''), (''secretName'', JStr ''item-a'')]])]
         (\<lambda>spec. default_vault spec = None)"

definition parse_sync_interval_tests :: "'rsa env \<Rightarrow> bool" where
  "parse_sync_interval_tests E \<longleftrightarrow>
     parse_sync_interval E [] = Ok DEFAULT_SYNC_INTERVAL
     \<and> parse_sync_interval E ''5m'' = Ok 300
     \<and> parse_sync_interval E ''1h'' = Ok 3600
     \<and> parse_sync_interval E ''1h30m'' = Ok 5400
     \<and> parse_sync_interval E ''30s'' = Ok 30
     \<and> is_err (parse_sync_interval E ''abc'') \<and> is_err (parse_sync_interval E ''5x'')"

definition build_requests_tests :: "'rsa env \<Rightarrow> bool" where
  "build_requests_tests E \<longleftrightarrow>
     ok_and (build_requests E (spec_of (Some ''Common'') [entry ''a'' (Some ''item-a'') None (Some ''Apollo'')]))
       (at_0 (\<lambda>r. req_vault r = Some ''Apollo''))
     \<and> ok_and (build_requests E (spec_of (Some ''Common'') [entry ''a'' (Some ''item-a'') None None]))
         (at_0 (\<lambda>r. req_vault r = Some ''Common''))
     \<and> ok_and (build_requests E (spec_of None [entry ''a'' (Some ''item-a'') None None]))
         (at_0 (\<lambda>r. req_vault r = None \<and> req_name r = ''item-a''))
     \<and> ok_and (build_requests E (spec_of None [entry ''a'' None (Some ''legacy-item'') None]))
         (at_0 (\<lambda>r. req_name r = ''legacy-item''))
     \<and> ok_and (build_requests E (spec_of None [entry ''a'' (Some ''new'') (Some ''old'') None]))
         (at_0 (\<lambda>r. req_name r = ''new''))
     \<and> err_and (build_requests E (spec_of None [entry ''a'' (Some ''item-a'') None None, entry ''b'' None None None]))
         (\<lambda>err. contains err ''spec.data[1]'' \<and> contains err ([CHR 0x22] @ ''b'' @ [CHR 0x22]))
     \<and> ok_and (build_requests E (spec_of (Some []) [entry ''a'' (Some ''item-a'') None (Some [])]))
         (at_0 (\<lambda>r. req_vault r = None))"

definition inherits_default_test :: "'rsa env \<Rightarrow> bool" where
  "inherits_default_test E \<longleftrightarrow>
     ok_and (build_requests E (spec_of (Some ''Common'') [entry ''a'' (Some ''item-a'') None (Some [])]))
       (at_0 (\<lambda>r. req_vault r = Some ''Common''))"

definition status_patch_tests :: bool where
  "status_patch_tests \<longleftrightarrow>
     json_index (json_index (status_patch \<lparr>ready = True, last_sync_time = Some ''2026-09-03T22:13:00Z'',
         last_sync_error = [], observed_generation = Some 1, conditions = []\<rparr>) ''status'') ''lastSyncError'' = JNull
     \<and> json_index (json_index (status_patch \<lparr>ready = False, last_sync_time = None,
         last_sync_error = ''boom'', observed_generation = Some 1, conditions = []\<rparr>) ''status'') ''lastSyncError''
       = JStr ''boom''"

section \<open>Lemmas\<close>

lemma parse_durations:
  "parse_duration oc ''5m'' = Ok 300" "parse_duration oc ''1h'' = Ok 3600" "parse_duration oc ''1h30m'' = Ok 5400"
  "parse_duration oc ''30s'' = Ok 30"
  by (simp_all add: parse_duration_def parse_loop.simps strip_unit_def str_eval mul_checked_def saturating_add_def)

lemma parse_duration_errors: "is_err (parse_duration oc [])" "is_err (parse_duration oc ''abc'')"
  "is_err (parse_duration oc ''5x'')"
  by (simp_all add: parse_duration_def parse_loop.simps strip_unit_def str_eval mul_checked_def saturating_add_def)

lemma is_err_iff: "is_err r \<longleftrightarrow> (\<exists>e. r = Err e)"
  by (cases r) simp_all

lemma parse_sync_interval_passes: "parse_sync_interval_tests E"
  using parse_durations [of "overflow_checks E"] parse_duration_errors [of "overflow_checks E"]
  by (auto simp: parse_sync_interval_tests_def parse_sync_interval_def is_err_iff)

lemma build_one:
  "resolved_secret_name item = Some n \<Longrightarrow> build_requests E (spec_of d [item]) =
     Ok [\<lparr>req_name = n, req_vault = or_else (non_empty (di_vault item)) (non_empty d)\<rparr>]"
  by (simp add: build_requests_def spec_of_def Let_def build_request_def)

lemma build_second_missing:
  assumes "resolved_secret_name a = Some n" and "resolved_secret_name b = None"
  shows "build_requests E (spec_of d [a, b]) = Err (missing_name_error E 1 b)"
  using assms by (simp add: build_requests_def spec_of_def Let_def build_request_def)

lemmas entry_simps = entry_def resolved_secret_name_def non_empty_def

lemma build_requests_passes:
  assumes "debug_str E ''b'' = [CHR 0x22] @ ''b'' @ [CHR 0x22]"
  shows "build_requests_tests E \<and> inherits_default_test E"
proof -
  have "show_nat 1 = ''1''" by (simp add: show_nat.simps char_of_eq_iff)
  then have msg: "contains (missing_name_error E 1 (entry ''b'' None None None)) ''spec.data[1]''"
    "contains (missing_name_error E 1 (entry ''b'' None None None)) ([CHR 0x22] @ ''b'' @ [CHR 0x22])"
    using assms by (simp_all add: missing_name_error_def entry_def strip_prefix_def)
  then show ?thesis
    by (simp add: build_requests_tests_def inherits_default_test_def build_one build_second_missing entry_simps)
qed

section \<open>All tests\<close>

text \<open>The unit tests of the duration parser, of the custom resource and of the reconciler pass on the
  model, in both overflow modes, whenever \<open>Debug\<close> of the string \<open>b\<close> puts it in quotation marks.\<close>

lemma resource_tests_pass:
  assumes "debug_str E ''b'' = [CHR 0x22] @ ''b'' @ [CHR 0x22]"
  shows "duration_tests oc \<and> resolved_secret_name_tests \<and> spec_vault_tests \<and> parse_sync_interval_tests E \<and> build_requests_tests E
    \<and> inherits_default_test E \<and> status_patch_tests"
proof -
  have "duration_tests oc" using parse_durations parse_duration_errors by (simp add: duration_tests_def)
  moreover have "resolved_secret_name_tests" by (simp add: resolved_secret_name_tests_def entry_simps)
  moreover have "spec_vault_tests"
    by (simp add: spec_vault_tests_def spec_parses_def de_spec_def de_data_item_def reading)
  moreover have "status_patch_tests"
    by (simp add: status_patch_tests_def status_patch_def status_fields_def Let_def skip_none_def)
  ultimately show ?thesis using parse_sync_interval_passes build_requests_passes [OF assms] by simp
qed

end
