(* ===== verification/SyncTests.thy ===== *)
theory SyncTests
  imports ResourceTests
begin

text \<open>
  The unit tests of \<open>src/vault/sync.rs\<close> as boolean functions over the model, for any tables of Unicode
  (the tests use ASCII names only), any iteration order of hash maps and any primitives with the
  documented laws.
\<close>

section \<open>Keys and encrypted strings\<close>

definition encrypt_type2 :: "'rsa prims \<Rightarrow> bytes \<Rightarrow> bytes \<Rightarrow> bytes \<Rightarrow> bytes \<Rightarrow> string" where
  "encrypt_type2 P ek mk v plaintext =
     (let pad_len = 16 - length plaintext mod 16;
          padded = plaintext @ replicate pad_len (word_of_nat pad_len);
          c = aes256_cbc_encrypt P ek v padded;
          mac_bytes = hmac_sha256 P mk (v @ c)
      in ''2.'' @ b64_encode P v @ ''|'' @ b64_encode P c @ ''|'' @ b64_encode P mac_bytes)"

lemma encrypt_type2_eq: "encrypt_type2 = make_type2_cipherstring"
  by (intro ext) (simp add: encrypt_type2_def make_type2_cipherstring_def pkcs7_pad_def Let_def)

definition make_key :: symmetric_key where
  "make_key = \<lparr>enc_key = map word_of_nat [0..<32], mac_key = map (\<lambda>i. word_of_nat (i + 32)) [0..<32]\<rparr>"

definition make_org_key :: symmetric_key where
  "make_org_key =
     \<lparr>enc_key = map (\<lambda>i. word_of_nat (i + 100)) [0..<32], mac_key = map (\<lambda>i. word_of_nat (i + 132)) [0..<32]\<rparr>"

text \<open>A cipher with a name and nothing else.\<close>

definition named_cipher :: "string \<Rightarrow> byte \<Rightarrow> string option \<Rightarrow> string \<Rightarrow> sync_cipher" where
  "named_cipher cid t oid n = \<lparr>cipher_id = cid, cipher_type = t, organization_id = oid, cipher_name = n,
     cipher_notes = None, login = None, card = None, cipher_fields = []\<rparr>"

definition CIPHER_TYPE_LOGIN :: byte where
  "CIPHER_TYPE_LOGIN = 1"

definition CIPHER_TYPE_SECURE_NOTE :: byte where
  "CIPHER_TYPE_SECURE_NOTE = 2"

section \<open>Tests\<close>

definition decrypt_cipher_tests :: "hash_order \<Rightarrow> 'rsa prims \<Rightarrow> bool" where
  "decrypt_cipher_tests H P \<longleftrightarrow>
     (let cipher = named_cipher ''cipher-1'' CIPHER_TYPE_LOGIN (Some ''org-123'')
            (encrypt_type2 P (enc_key make_org_key) (mac_key make_org_key) (replicate 16 50) (as_bytes ''ORG_SECRET''))
      in is_err (decrypt_cipher H P cipher make_key)
         \<and> ok_and (decrypt_cipher H P cipher make_org_key)
             (\<lambda>item. item_name item = ''ORG_SECRET'' \<and> item_org item = Some ''org-123''))
     \<and> (let cipher = named_cipher ''empty-org-1'' CIPHER_TYPE_SECURE_NOTE (Some [])
            (encrypt_type2 P (enc_key make_key) (mac_key make_key) (replicate 16 0) (as_bytes ''X''))
        in ok_and (decrypt_cipher H P cipher make_key) (\<lambda>item. item_org item = None))
     \<and> (let cipher = named_cipher ''personal-1'' CIPHER_TYPE_SECURE_NOTE None
            (encrypt_type2 P (enc_key make_key) (mac_key make_key) (replicate 16 0) (as_bytes ''PERSONAL_SECRET''))
        in ok_and (decrypt_cipher H P cipher make_key)
             (\<lambda>item. item_name item = ''PERSONAL_SECRET'' \<and> item_org item = None))"

definition make_item :: "string \<Rightarrow> string option \<Rightarrow> decrypted_item" where
  "make_item name oid =
     (let owner = (case oid of Some i \<Rightarrow> i | None \<Rightarrow> ''personal'') in
      \<lparr>item_id = ''id-'' @ name @ ''-'' @ owner, item_type = 1, item_org = oid, item_name = name, username = [],
       password = ''pw-'' @ name @ ''-'' @ owner, item_notes = [], item_uri = [], item_fields = []\<rparr>)"

definition find_item_tests :: "ucd \<Rightarrow> bool" where
  "find_item_tests U \<longleftrightarrow>
     map_option item_name (find_item U [make_item ''MySecret'' None, make_item ''OtherSecret'' None] ''mysecret'' None)
       = Some ''MySecret''
     \<and> map_option item_name (find_item U [make_item ''Production API Key'' None] ''api key'' None)
         = Some ''Production API Key''
     \<and> find_item U [] ''missing'' None = None
     \<and> map_option password (find_item U [make_item ''shared-name'' (Some ''org-a''),
           make_item ''shared-name'' (Some ''org-b''), make_item ''shared-name'' None] ''shared-name'' (Some ''org-b''))
         = Some ''pw-shared-name-org-b''
     \<and> find_item U [make_item ''only-personal'' None] ''only-personal'' (Some ''org-a'') = None
     \<and> find_item U [make_item ''org-item'' (Some ''org-a'')] ''org-item'' None \<noteq> None
     \<and> map_option item_name (find_item U [make_item ''api key extended'' (Some ''org-a''),
           make_item ''api key'' (Some ''org-a'')] ''api key'' (Some ''org-a'')) = Some ''api key''"

definition org :: "string \<Rightarrow> string \<Rightarrow> sync_organization" where
  "org i n = \<lparr>org_id = i, org_name = n, org_key = []\<rparr>"

definition index_orgs_tests :: "ucd \<Rightarrow> bool" where
  "index_orgs_tests U \<longleftrightarrow>
     index_orgs U [org ''org-1'' ''Kubernetes - Apollo''] ''kubernetes - apollo'' = Some [''org-1'']
     \<and> map_option length (index_orgs U [org ''org-1'' ''Shared'', org ''org-2'' ''shared''] ''shared'') = Some 2"

definition make_cache :: "ucd \<Rightarrow> vault_cache" where
  "make_cache U =
     \<lparr>items = [make_item ''shared-name'' (Some ''org-a''), make_item ''shared-name'' None,
               make_item ''only-in-b'' (Some ''org-b'')],
      orgs_by_name = index_orgs U [org ''org-a'' ''Kubernetes - Apollo'', org ''org-b'' ''Kubernetes - Common'',
               org ''dup-1'' ''Duplicated'', org ''dup-2'' ''Duplicated'']\<rparr>"

definition lookup_item_tests :: "ucd \<Rightarrow> bool" where
  "lookup_item_tests U \<longleftrightarrow>
     ok_and (lookup_item U (make_cache U) ''shared-name'' (Some ''kubernetes - apollo''))
       (\<lambda>item. password item = ''pw-shared-name-org-a'')
     \<and> ok_and (lookup_item U (make_cache U) ''only-in-b'' None) (\<lambda>item. True)
     \<and> err_and (lookup_item U (make_cache U) ''shared-name'' (Some ''no-such-org''))
         (\<lambda>e. case e of VaultNotFound v \<Rightarrow> True | _ \<Rightarrow> False)
     \<and> err_and (lookup_item U (make_cache U) ''shared-name'' (Some ''Duplicated''))
         (\<lambda>e. case e of VaultAmbiguous v \<Rightarrow> True | _ \<Rightarrow> False)
     \<and> err_and (lookup_item U (make_cache U) ''only-in-b'' (Some ''Kubernetes - Apollo''))
         (\<lambda>e. case e of NotFoundInVault n v k \<Rightarrow> True | _ \<Rightarrow> False)
     \<and> err_and (lookup_item U (make_cache U) ''missing'' None) (\<lambda>e. case e of NotFound n k \<Rightarrow> True | _ \<Rightarrow> False)"

definition stale_miss_tests :: bool where
  "stale_miss_tests \<longleftrightarrow>
     is_stale_miss (NotFound ''x'' 0) \<and> is_stale_miss (NotFoundInVault ''x'' ''v'' 0)
     \<and> is_stale_miss (VaultNotFound ''v'') \<and> \<not> is_stale_miss (VaultAmbiguous ''v'')"

definition missing_org_key_test :: "hash_order \<Rightarrow> ucd \<Rightarrow> 'rsa prims \<Rightarrow> bool" where
  "missing_org_key_test H U P \<longleftrightarrow>
     (let cipher = named_cipher ''cipher-orphan'' CIPHER_TYPE_LOGIN (Some ''org-missing-key'')
            (encrypt_type2 P (replicate 32 9) (replicate 32 9) (replicate 16 7) (as_bytes ''ORPHANED''));
          sync = \<lparr>profile = \<lparr>profile_id = ''u1'', profile_email = ''u@example.com'', profile_key = [], private_key = [],
              organizations = [org ''org-missing-key'' ''Orphaned Org'']\<rparr>, ciphers = [cipher]\<rparr>;
          (cache, skips) = decrypt_vault H U P sync make_key
      in no_org_key skips = 1 \<and> decrypt_failed skips = 0 \<and> skips_total skips = 1 \<and> items cache = []
         \<and> orgs_by_name cache ''orphaned org'' \<noteq> None)"

definition extract_secret_tests :: bool where
  "extract_secret_tests \<longleftrightarrow>
     (let item = \<lparr>item_id = ''1'', item_type = 1, item_org = None, item_name = ''Test'', username = [],
            password = ''thepassword'', item_notes = ''the notes'', item_uri = [],
            item_fields = [(''value'', ''field_value'')]\<rparr>
      in extract_secret item = ''thepassword'')
     \<and> (let item = \<lparr>item_id = ''1'', item_type = 2, item_org = None, item_name = ''Test'', username = [],
            password = [], item_notes = ''fallback notes'', item_uri = [], item_fields = [(''token'', ''mytoken'')]\<rparr>
        in extract_secret item = ''mytoken'')
     \<and> (let item = \<lparr>item_id = ''1'', item_type = 2, item_org = None, item_name = ''Test'', username = [],
            password = [], item_notes = ''secret note'', item_uri = [], item_fields = []\<rparr>
        in extract_secret item = ''secret note'')"

section \<open>Lemmas\<close>

text \<open>The names of the tests in lower case.\<close>

lemma lower_names:
  "to_lowercase U ''MySecret'' = ''mysecret''"
  "to_lowercase U ''OtherSecret'' = ''othersecret''"
  "to_lowercase U ''mysecret'' = ''mysecret''"
  "to_lowercase U ''Production API Key'' = ''production api key''"
  "to_lowercase U ''api key'' = ''api key''"
  "to_lowercase U ''missing'' = ''missing''"
  "to_lowercase U ''shared-name'' = ''shared-name''"
  "to_lowercase U ''only-personal'' = ''only-personal''"
  "to_lowercase U ''org-item'' = ''org-item''"
  "to_lowercase U ''api key extended'' = ''api key extended''"
  "to_lowercase U ''Kubernetes - Apollo'' = ''kubernetes - apollo''"
  "to_lowercase U ''kubernetes - apollo'' = ''kubernetes - apollo''"
  "to_lowercase U ''Kubernetes - Common'' = ''kubernetes - common''"
  "to_lowercase U ''Shared'' = ''shared''"
  "to_lowercase U ''shared'' = ''shared''"
  "to_lowercase U ''Duplicated'' = ''duplicated''"
  "to_lowercase U ''only-in-b'' = ''only-in-b''"
  "to_lowercase U ''no-such-org'' = ''no-such-org''"
  "to_lowercase U ''Orphaned Org'' = ''orphaned org''"
  by (simp_all add: to_lowercase_ascii is_ascii_def ascii_lower_def char_of_eq_iff)

lemmas item_simps = find_item_def make_item_def in_scope_def lower_names strip_prefix_def Let_def

lemma find_item_passes: "find_item_tests U"
  by (simp add: find_item_tests_def item_simps)

lemma index_orgs_passes: "index_orgs_tests U"
  by (simp add: index_orgs_tests_def index_orgs_def org_def lower_names)

lemma make_cache_sel:
  "items (make_cache U) = [make_item ''shared-name'' (Some ''org-a''), make_item ''shared-name'' None,
     make_item ''only-in-b'' (Some ''org-b'')]"
  "orgs_by_name (make_cache U) = [''kubernetes - apollo'' \<mapsto> [''org-a''], ''kubernetes - common'' \<mapsto> [''org-b''],
     ''duplicated'' \<mapsto> [''dup-1'', ''dup-2'']]"
  by (simp_all add: make_cache_def index_orgs_def org_def lower_names Let_def)

lemma lookup_item_passes: "lookup_item_tests U"
  by (simp add: lookup_item_tests_def lookup_item_def make_cache_sel item_simps)

lemma extract_secret_passes: "extract_secret_tests"
  by (simp add: extract_secret_tests_def extract_secret_def secret_field_names_def)

lemma make_keys:
  "length (enc_key make_key) = 32" "length (enc_key make_org_key) = 32" "mac_key make_key \<noteq> []" "mac_key make_org_key \<noteq> []"
  by (simp_all add: make_key_def make_org_key_def)

text \<open>The two keys of the tests give different authentication codes of the test's message.\<close>

definition codes_differ :: "'rsa prims \<Rightarrow> bool" where
  "codes_differ P \<longleftrightarrow>
     (let v = replicate 16 50; m = v @ aes256_cbc_encrypt P (enc_key make_org_key) v (pkcs7_pad (as_bytes ''ORG_SECRET''))
      in hmac_sha256 P (mac_key make_key) m \<noteq> hmac_sha256 P (mac_key make_org_key) m)"

text \<open>A string encrypted under a key decrypts under it, and not under a key with another code of its message.\<close>

lemma decrypt_own:
  assumes "b64_laws P" and "aes_laws P" and "length (enc_key k) = 32" and "mac_key k \<noteq> []" and "length v = 16"
    and "list_all is_ascii t"
  shows "decrypt_str P (encrypt_type2 P (enc_key k) (mac_key k) v (as_bytes t)) k = Ok t"
  using decrypt_str_type2 [OF assms(1-5)] utf8_ascii_literal [OF assms(6)] by (simp add: encrypt_type2_eq)

lemma decrypt_cipher_passes:
  assumes "b64_laws P" and "aes_laws P"
    and "codes_differ P"
  shows "decrypt_cipher_tests H P"
proof -
  note own = decrypt_own [OF assms(1,2)]
  have "decrypt_str P (encrypt_type2 P (enc_key make_org_key) (mac_key make_org_key) (replicate 16 50)
      (as_bytes ''ORG_SECRET'')) make_key \<noteq> Ok t" for t
    unfolding encrypt_type2_eq by (rule decrypt_type2_wrong_key [OF assms(1)]) (use assms(3) in \<open>simp add: codes_differ_def Let_def\<close>)
  then have foreign: "is_err (decrypt_str P (encrypt_type2 P (enc_key make_org_key) (mac_key make_org_key) (replicate 16 50)
      (as_bytes ''ORG_SECRET'')) make_key)"
    by (cases "decrypt_str P (encrypt_type2 P (enc_key make_org_key) (mac_key make_org_key) (replicate 16 50)
      (as_bytes ''ORG_SECRET'')) make_key") auto
  show ?thesis
    unfolding decrypt_cipher_tests_def Let_def
    using foreign
    by (auto simp: decrypt_cipher_def named_cipher_def own make_keys is_ascii_def is_err_iff)
qed

lemma missing_org_key_passes: "missing_org_key_test H U P"
  by (simp add: missing_org_key_test_def decrypt_vault_def decrypt_org_keys_def decrypt_private_key_def org_def
      named_cipher_def cipher_key_def decrypt_step_def index_orgs_def lower_names skips_total_def Let_def
      split: prod.split)

section \<open>All tests\<close>

text \<open>The unit tests of the vault module pass on the model, for every table of lower-case mappings and
  every iteration order of hash maps, and for all primitives that satisfy the laws of Base64 and AES
  and give different authentication codes of the test's message under the two test keys.\<close>

lemma sync_tests_pass:
  assumes "b64_laws P" and "aes_laws P"
    and "codes_differ P"
  shows "decrypt_cipher_tests H P \<and> find_item_tests U \<and> index_orgs_tests U \<and> lookup_item_tests U \<and> stale_miss_tests
    \<and> missing_org_key_test H U P \<and> extract_secret_tests"
  using decrypt_cipher_passes [OF assms] find_item_passes index_orgs_passes lookup_item_passes
    missing_org_key_passes extract_secret_passes
  by (simp add: stale_miss_tests_def is_stale_miss_def)

lemma toy_mac_keys: "codes_differ toy_prims"
proof -
  have "hmac_sha256 toy_prims (mac_key make_key) m \<noteq> hmac_sha256 toy_prims (mac_key make_org_key) m" for m
  proof -
    have "hd (mac_key make_key) \<noteq> hd (mac_key make_org_key)" "mac_key make_key \<noteq> []" "mac_key make_org_key \<noteq> []"
      by (simp_all add: make_key_def make_org_key_def hd_map)
    then have "hd (take 32 (mac_key make_key @ m)) \<noteq> hd (take 32 (mac_key make_org_key @ m))"
      by simp
    then show ?thesis by (auto simp: toy_prims_def)
  qed
  then show ?thesis by (simp add: codes_differ_def Let_def)
qed

end
