(* ===== verification/VaultRoundTrip.thy ===== *)
theory VaultRoundTrip
  imports VaultSync
begin

text \<open>
  A whole vault, from the plaintext items of a user and of the organizations to the snapshot: what the
  clients of the user encrypted, under the account key or under the key of an organization, which
  itself is wrapped for the RSA key of the user, \<open>decrypt_vault\<close> (\<open>src/vault/sync.rs\<close>) decrypts.

  The encrypting side is a relation, so that every IV, every order and every optional member a client
  may choose is covered.
\<close>

section \<open>Laws\<close>

text \<open>RSA-OAEP with a 2048 bit key: what is encrypted comes back, for messages up to the length the
  padding leaves room for (256 bytes less two hashes and two bytes).\<close>

definition oaep_limit :: "oaep_hash \<Rightarrow> nat" where
  "oaep_limit h = (case h of OaepSha1 \<Rightarrow> 214 | OaepSha256 \<Rightarrow> 190)"

definition oaep_laws :: "'rsa prims \<Rightarrow> (oaep_hash \<Rightarrow> bytes \<Rightarrow> bytes) \<Rightarrow> 'rsa \<Rightarrow> bool" where
  "oaep_laws P oaep k \<longleftrightarrow> (\<forall>h x. length x \<le> oaep_limit h \<longrightarrow> rsa_oaep_decrypt P h k (oaep h x) = Inr x)"

definition key_lengths :: "symmetric_key \<Rightarrow> bool" where
  "key_lengths k \<longleftrightarrow> length (enc_key k) = 32 \<and> length (mac_key k) = 32"

section \<open>The encrypting side\<close>

text \<open>A text as an encrypted member: a type 2 string under some IV, or, when it is empty, possibly the
  empty string; an optional member may be absent when the text is empty.\<close>

definition encrypts_text :: "'rsa prims \<Rightarrow> symmetric_key \<Rightarrow> string \<Rightarrow> string \<Rightarrow> bool" where
  "encrypts_text P k t s \<longleftrightarrow> t = [] \<and> s = []
     \<or> utf8_valid (as_bytes t)
       \<and> (\<exists>v. length v = 16 \<and> s = make_type2_cipherstring P (enc_key k) (mac_key k) v (as_bytes t))"

definition encrypts_opt :: "'rsa prims \<Rightarrow> symmetric_key \<Rightarrow> string \<Rightarrow> string option \<Rightarrow> bool" where
  "encrypts_opt P k t m \<longleftrightarrow> (case m of None \<Rightarrow> t = [] | Some s \<Rightarrow> encrypts_text P k t s)"

text \<open>The address is the member \<open>uri\<close>, or, when that is absent, the first of \<open>uris\<close>.\<close>

definition encrypts_uri :: "'rsa prims \<Rightarrow> symmetric_key \<Rightarrow> string \<Rightarrow> sync_login \<Rightarrow> bool" where
  "encrypts_uri P k t l \<longleftrightarrow>
     (case login_uri l of
        Some s \<Rightarrow> encrypts_text P k t s \<and> (t = [] \<longrightarrow> login_uris l = [])
      | None \<Rightarrow> (case login_uris l of [] \<Rightarrow> t = [] | u # _ \<Rightarrow> encrypts_opt P k t (uri_uri u)))"

definition encrypts_login :: "'rsa prims \<Rightarrow> symmetric_key \<Rightarrow> decrypted_item \<Rightarrow> sync_login option \<Rightarrow> bool" where
  "encrypts_login P k x m \<longleftrightarrow>
     (case m of
        None \<Rightarrow> username x = [] \<and> password x = [] \<and> item_uri x = []
      | Some l \<Rightarrow> encrypts_opt P k (username x) (login_username l) \<and> encrypts_opt P k (password x) (login_password l)
          \<and> encrypts_uri P k (item_uri x) l)"

definition encrypts_field :: "'rsa prims \<Rightarrow> symmetric_key \<Rightarrow> string \<times> string \<Rightarrow> sync_field \<Rightarrow> bool" where
  "encrypts_field P k x f \<longleftrightarrow>
     fst x \<noteq> [] \<and> encrypts_opt P k (fst x) (field_name f) \<and> encrypts_opt P k (snd x) (field_value f)"

definition encrypts_item :: "'rsa prims \<Rightarrow> symmetric_key \<Rightarrow> decrypted_item \<Rightarrow> sync_cipher \<Rightarrow> bool" where
  "encrypts_item P k x c \<longleftrightarrow>
     cipher_id c = item_id x \<and> cipher_type c = item_type x \<and> organization_id c = item_org x
     \<and> encrypts_text P k (item_name x) (cipher_name c) \<and> encrypts_opt P k (item_notes x) (cipher_notes c)
     \<and> encrypts_login P k x (login c)
     \<and> list_all2 (encrypts_field P k) (item_fields x) (cipher_fields c) \<and> distinct (map fst (item_fields x))"

text \<open>The key of an item: the account key, or that of its organization, which is one of the user's.\<close>

definition key_of :: "(string \<rightharpoonup> symmetric_key) \<Rightarrow> symmetric_key \<Rightarrow> sync_organization list \<Rightarrow> decrypted_item
    \<Rightarrow> symmetric_key option" where
  "key_of keys sk orgs x =
     (case item_org x of None \<Rightarrow> Some sk
      | Some oid \<Rightarrow> if oid \<noteq> [] \<and> oid \<in> set (map org_id orgs) then keys oid else None)"

definition wraps_key :: "'rsa prims \<Rightarrow> (oaep_hash \<Rightarrow> bytes \<Rightarrow> bytes) \<Rightarrow> (string \<rightharpoonup> symmetric_key) \<Rightarrow> sync_organization
    \<Rightarrow> bool" where
  "wraps_key P oaep keys org \<longleftrightarrow>
     (\<exists>k. keys (org_id org) = Some k \<and> key_lengths k
        \<and> org_key org = ''4.'' @ b64_encode P (oaep OaepSha1 (enc_key k @ mac_key k)))"

text \<open>The answer of the server to a synchronization: the private key of the user under the account key,
  the organizations with their keys wrapped for it, the items each under its key.\<close>

definition encrypts_vault :: "'rsa prims \<Rightarrow> (oaep_hash \<Rightarrow> bytes \<Rightarrow> bytes) \<Rightarrow> bytes \<Rightarrow> (string \<rightharpoonup> symmetric_key)
    \<Rightarrow> symmetric_key \<Rightarrow> decrypted_item list \<Rightarrow> sync_response \<Rightarrow> bool" where
  "encrypts_vault P oaep der keys sk its sync \<longleftrightarrow>
     key_lengths sk
     \<and> (\<exists>v. length v = 16 \<and> private_key (profile sync) = make_type2_cipherstring P (enc_key sk) (mac_key sk) v der)
     \<and> list_all (wraps_key P oaep keys) (organizations (profile sync))
     \<and> list_all2 (\<lambda>x c. \<exists>k. key_of keys sk (organizations (profile sync)) x = Some k \<and> encrypts_item P k x c)
         its (ciphers sync)"

text \<open>The same item, up to the iteration order of its custom fields.\<close>

definition same_item :: "decrypted_item \<Rightarrow> decrypted_item \<Rightarrow> bool" where
  "same_item x y \<longleftrightarrow> x\<lparr>item_fields := []\<rparr> = y\<lparr>item_fields := []\<rparr> \<and> map_of (item_fields x) = map_of (item_fields y)"

section \<open>Texts and items\<close>

lemma key_lengths_usable: "key_lengths k \<Longrightarrow> length (enc_key k) = 32 \<and> mac_key k \<noteq> []"
  by (auto simp: key_lengths_def)

text \<open>What is read under a key is what was written under it.\<close>

definition reads_back :: "'rsa prims \<Rightarrow> symmetric_key \<Rightarrow> bool" where
  "reads_back P k \<longleftrightarrow> (\<forall>t s. encrypts_text P k t s \<longrightarrow> decrypt_str P s k = Ok t)"

lemma keys_read_back:
  assumes "b64_laws P" and "aes_laws P" and "key_lengths k"
  shows "reads_back P k"
  using decrypt_str_type2 [OF assms(1,2), of "enc_key k" "mac_key k"] key_lengths_usable [OF assms(3)]
  by (auto simp: reads_back_def encrypts_text_def) (simp add: decrypt_str_def)

lemma decrypt_default: "reads_back P k \<Longrightarrow> encrypts_text P k t s \<Longrightarrow> decrypt_or_default P k s = t"
  by (simp add: decrypt_or_default_def reads_back_def)

lemma decrypt_opt: "reads_back P k \<Longrightarrow> encrypts_opt P k t m \<Longrightarrow> opt_decrypt P k m = t"
  by (auto simp: encrypts_opt_def opt_decrypt_def decrypt_default split: option.splits)

lemma decrypt_uri: "reads_back P k \<Longrightarrow> encrypts_uri P k t l \<Longrightarrow> login_uri_text P k l = t"
  by (auto simp: encrypts_uri_def login_uri_text_def opt_decrypt_def encrypts_opt_def Let_def decrypt_default
      split: option.splits list.splits)

lemma decrypt_fields:
  assumes "hash_order_ok H" and "reads_back P k"
  shows "list_all2 (encrypts_field P k) xs fs \<Longrightarrow> distinct (map fst xs) \<Longrightarrow> distinct (map fst m) \<Longrightarrow>
    map_of (foldl (insert_field H P k) m fs) = map_of m ++ map_of xs"
proof (induction xs fs arbitrary: m rule: list_all2_induct)
  case Nil
  show ?case by simp
next
  case (Cons x xs f fs)
  let ?m = "AList.update (fst x) (snd x) m"
  have dist: "distinct (map fst ?m)" using Cons.prems(2) by (rule distinct_update)
  then have order: "distinct (map fst (H ?m))" "map_of (H ?m) = map_of ?m"
    using assms(1) map_of_inject_set [of "H ?m" ?m] by (auto simp: hash_order_ok_def)
  have "insert_field H P k m f = H ?m"
    using Cons.hyps(1) decrypt_opt [OF assms(2)] by (auto simp: encrypts_field_def insert_field_def Let_def)
  moreover have "fst x \<notin> dom (map_of xs)" using Cons.prems(1) by (simp add: dom_map_of_conv_image_fst)
  ultimately show ?case
    using Cons.IH [of "H ?m"] Cons.prems(1) order
    by (cases x) (simp add: update_conv' map_add_upd_left del: fun_upd_apply)
qed

lemma decrypt_item:
  assumes "hash_order_ok H" and "encrypts_item P k x c" and "item_org x \<noteq> Some []" and "reads_back P k"
  shows "\<exists>y. decrypt_cipher H P c k = Ok y \<and> same_item x y"
proof -
  have login: "username x = (case login c of None \<Rightarrow> [] | Some l \<Rightarrow> opt_decrypt P k (login_username l))"
    "password x = (case login c of None \<Rightarrow> [] | Some l \<Rightarrow> opt_decrypt P k (login_password l))"
    "item_uri x = (case login c of None \<Rightarrow> [] | Some l \<Rightarrow> login_uri_text P k l)"
    using assms(2) decrypt_opt [OF assms(4)] decrypt_uri [OF assms(4)]
    by (auto simp: encrypts_item_def encrypts_login_def split: option.splits)
  have "map_of (foldl (insert_field H P k) [] (cipher_fields c)) = map_of (item_fields x)"
    using decrypt_fields [OF assms(1,4), of "item_fields x" "cipher_fields c" "[]"] assms(2)
    by (simp add: encrypts_item_def)
  moreover have "decrypt_str P (cipher_name c) k = Ok (item_name x)" "opt_decrypt P k (cipher_notes c) = item_notes x"
    using assms(2,4) decrypt_opt [OF assms(4)] by (simp_all add: encrypts_item_def reads_back_def)
  ultimately show ?thesis
    using assms(2,3) login
    by (simp add: decrypt_cipher_def same_item_def encrypts_item_def split: option.split)
qed

section \<open>Keys and the vault\<close>

lemma unwrap_org_key:
  assumes "b64_laws P" and "oaep_laws P oaep pk" and "wraps_key P oaep keys org"
  shows "\<exists>k. keys (org_id org) = Some k \<and> decrypt_org_key P (org_key org) pk = Ok k"
proof -
  obtain k where k: "keys (org_id org) = Some k" "key_lengths k"
    "org_key org = ''4.'' @ b64_encode P (oaep OaepSha1 (enc_key k @ mac_key k))"
    using assms(3) by (auto simp: wraps_key_def)
  let ?cs = "\<lparr>enc_type = 4, iv = [], ct = oaep OaepSha1 (enc_key k @ mac_key k), mac = []\<rparr>"
  have "show_byte 4 = ''4''" by (simp add: show_byte_def show_nat.simps char_of_eq_iff)
  then have "cipher_text P ?cs = org_key org" by (simp add: cipher_text_def k(3) enc_type_defs)
  moreover have "parse P (cipher_text P ?cs) = Ok ?cs"
    by (rule parse_cipher_text_aux [OF assms(1)]) (simp add: cipher_wf_def enc_type_defs)
  ultimately have "parse P (org_key org) = Ok ?cs" "org_key org \<noteq> []" by (simp_all add: k(3))
  moreover have "rsa_oaep_decrypt P OaepSha1 pk (ct ?cs) = Inr (enc_key k @ mac_key k)"
    using assms(2) k(2) by (simp add: oaep_laws_def oaep_limit_def key_lengths_def)
  ultimately have "decrypt_org_key P (org_key org) pk = Ok k"
    using k(2) by (simp add: decrypt_org_key_def decrypt_rsa_def enc_type_defs split_key_def key_lengths_def)
  with k(1) show ?thesis by blast
qed

lemma unwrap_org_keys:
  assumes "b64_laws P" and "oaep_laws P oaep pk" and "list_all (wraps_key P oaep keys) orgs"
  shows "foldl (\<lambda>org_keys org. case decrypt_org_key P (org_key org) pk of
        Ok k \<Rightarrow> org_keys(org_id org \<mapsto> k) | _ \<Rightarrow> org_keys) m orgs
      = (\<lambda>oid. if oid \<in> set (map org_id orgs) then keys oid else m oid)"
  using assms(3)
proof (induction orgs arbitrary: m)
  case Nil
  show ?case by simp
next
  case (Cons org orgs)
  then obtain k where "keys (org_id org) = Some k" "decrypt_org_key P (org_key org) pk = Ok k"
    using unwrap_org_key [OF assms(1,2), of keys org] by auto
  with Cons show ?case by (auto simp: fun_eq_iff)
qed

lemma vault_org_keys:
  assumes "b64_laws P" and "aes_laws P" and "oaep_laws P oaep pk" and "rsa_from_pkcs8_der P der = Inr pk"
    and "encrypts_vault P oaep der keys sk its sync"
  shows "decrypt_org_keys P (profile sync) sk oid
    = (if oid \<in> set (map org_id (organizations (profile sync))) then keys oid else None)"
proof -
  obtain v where v: "length v = 16"
    "private_key (profile sync) = make_type2_cipherstring P (enc_key sk) (mac_key sk) v der"
    and sk: "key_lengths sk" and orgs: "list_all (wraps_key P oaep keys) (organizations (profile sync))"
    using assms(5) by (auto simp: encrypts_vault_def)
  have "decrypt_private_key P (private_key (profile sync)) sk = Ok pk"
    using decrypt_type2 [OF assms(1,2) _ _ v(1), of "enc_key sk" "mac_key sk" der] key_lengths_usable [OF sk] assms(4) v(2)
    by (auto simp: decrypt_private_key_def)
  then show ?thesis
    using unwrap_org_keys [OF assms(1,3) orgs, of Map.empty] v(2) by (simp add: decrypt_org_keys_def)
qed

lemma decrypt_items:
  assumes "list_all2 (\<lambda>x c. \<exists>y. f c = Some y \<and> same_item x y) its cs"
  shows "list_all2 same_item its (List.map_filter f cs) \<and> filter (\<lambda>c. f c = None) cs = []"
  using assms by (induction rule: list_all2_induct) (auto simp: map_filter_Cons List.map_filter_def)

section \<open>Properties\<close>

text \<open>C34. The vault comes back. When the answer of the server is the encryption of a list of items, each
  under the account key or under the key of the organization it is shared with, the private key of
  the user and the organization keys being wrapped as clients wrap them, the snapshot has these
  items, all of them, in their order, member by member (custom fields as a map), and no item is
  skipped.\<close>

theorem vault_round_trip:
  assumes "b64_laws P" and "aes_laws P" and "oaep_laws P oaep pk" and "hash_order_ok H"
    and "rsa_from_pkcs8_der P der = Inr pk" and "encrypts_vault P oaep der keys sk its sync"
  shows "\<exists>snapshot. decrypt_vault H U P sync sk =
      (\<lparr>items = snapshot, orgs_by_name = index_orgs U (organizations (profile sync))\<rparr>,
       \<lparr>no_org_key = 0, decrypt_failed = 0\<rparr>)
    \<and> list_all2 same_item its snapshot"
proof -
  let ?orgs = "organizations (profile sync)" and ?ks = "decrypt_org_keys P (profile sync) sk"
  have sk: "key_lengths sk" and wrapped: "list_all (wraps_key P oaep keys) ?orgs"
    and enc: "list_all2 (\<lambda>x c. \<exists>k. key_of keys sk ?orgs x = Some k \<and> encrypts_item P k x c) its (ciphers sync)"
    using assms(6) by (auto simp: encrypts_vault_def)
  have item: "cipher_key ?ks sk c \<noteq> None \<and> (\<exists>y. decrypt_one H P ?ks sk c = Some y \<and> same_item x y)"
    if x: "key_of keys sk ?orgs x = Some k" "encrypts_item P k x c" for x c k
  proof -
    have "organization_id c = item_org x" using x(2) by (simp add: encrypts_item_def)
    then have key: "cipher_key ?ks sk c = Some k" and org: "item_org x \<noteq> Some []"
      using x(1) vault_org_keys [OF assms(1,2,3,5,6)]
      by (auto simp: key_of_def cipher_key_def split: option.splits if_splits)
    have "key_lengths k"
      using x(1) sk wrapped by (force simp: key_of_def wraps_key_def list_all_iff split: option.splits if_splits)
    from decrypt_item [OF assms(4) x(2) org keys_read_back [OF assms(1,2) this]] show ?thesis
      using key by (auto simp: decrypt_one_def)
  qed
  have "list_all2 (\<lambda>x c. \<exists>y. decrypt_one H P ?ks sk c = Some y \<and> same_item x y) its (ciphers sync)"
    using enc by (rule list_all2_mono) (use item in blast)
  from decrypt_items [OF this] have same: "list_all2 same_item its (List.map_filter (decrypt_one H P ?ks sk) (ciphers sync))"
    and every: "filter (\<lambda>c. decrypt_one H P ?ks sk c = None) (ciphers sync) = []" by auto
  have "decrypt_one H P ?ks sk c \<noteq> None" if "c \<in> set (ciphers sync)" for c
    using every that by (simp add: filter_empty_conv)
  moreover have "cipher_key ?ks sk c \<noteq> None" if "decrypt_one H P ?ks sk c \<noteq> None" for c
    using that by (auto simp: decrypt_one_def split: option.splits)
  ultimately have "filter (\<lambda>c. cipher_key ?ks sk c = None) (ciphers sync) = []"
    "filter (\<lambda>c. cipher_key ?ks sk c \<noteq> None \<and> decrypt_one H P ?ks sk c = None) (ciphers sync) = []"
    by (auto simp: filter_empty_conv)
  with same show ?thesis by (simp add: decrypt_vault_eq Let_def)
qed

lemma demo_encrypts:
  "encrypts_vault toy_prims (\<lambda>h x. 5 # x) [5] [''o1'' \<mapsto> demo_org_key] demo_key
     [demo_item ''c1'' None ''db'' ''personal'', demo_item ''c2'' (Some ''o1'') ''db'' ''shared''] demo_sync"
proof -
  have encrypted: "encrypts_text toy_prims k t (demo_enc k t)" if "list_all is_ascii t" for k t
    using utf8_ascii_literal [OF that] unfolding encrypts_text_def demo_enc_def
    by (intro disjI2 conjI exI [of _ "replicate 16 0"]) simp_all
  have ascii: "list_all is_ascii ''db''" "list_all is_ascii ''personal''" "list_all is_ascii ''shared''"
    by (simp_all add: is_ascii_def)
  have item: "encrypts_item toy_prims k (demo_item cid org n pw) (demo_cipher k cid org n pw)"
    if "list_all is_ascii n" "list_all is_ascii pw" for k cid org n pw
    using that encrypted
    by (simp add: encrypts_item_def demo_item_def demo_cipher_def encrypts_login_def encrypts_opt_def encrypts_uri_def)
  have lengths: "key_lengths demo_key" "key_lengths demo_org_key"
    by (simp_all add: key_lengths_def demo_key_def demo_org_key_def)
  have "show_byte 4 = ''4''" by (simp add: show_byte_def show_nat.simps char_of_eq_iff)
  then have "wraps_key toy_prims (\<lambda>h x. 5 # x) [''o1'' \<mapsto> demo_org_key] (hd demo_orgs)"
    using lengths by (simp add: wraps_key_def demo_orgs_def cipher_text_def enc_type_defs demo_org_key_def)
  then have "list_all (wraps_key toy_prims (\<lambda>h x. 5 # x) [''o1'' \<mapsto> demo_org_key]) demo_orgs"
    by (simp add: demo_orgs_def)
  moreover have "map org_id demo_orgs = [''o1'']" by (simp add: demo_orgs_def)
  moreover have "item_org (demo_item cid org n pw) = org" for cid org n pw by (simp add: demo_item_def)
  ultimately show ?thesis
    using lengths item [OF ascii(1,2)] item [OF ascii(1,3)]
    by (simp add: encrypts_vault_def demo_sync_def key_of_def del: set_map) (rule exI [of _ "replicate 16 0"], simp)
qed

lemma toy_oaep: "oaep_laws toy_prims (\<lambda>h x. 5 # x) [5]"
  by (simp add: oaep_laws_def toy_rsa)

theorem vault_round_trip_witness:
  "map password (items (fst (decrypt_vault id toy_ucd toy_prims demo_sync demo_key))) = [''personal'', ''shared'']"
proof -
  have "hash_order_ok id" by (simp add: hash_order_ok_def)
  moreover have "rsa_from_pkcs8_der toy_prims [5] = Inr [5]" by (simp add: toy_rsa)
  ultimately obtain snapshot where "items (fst (decrypt_vault id toy_ucd toy_prims demo_sync demo_key)) = snapshot"
    and "list_all2 same_item
      [demo_item ''c1'' None ''db'' ''personal'', demo_item ''c2'' (Some ''o1'') ''db'' ''shared''] snapshot"
    using vault_round_trip [OF toy_b64_laws toy_aes_laws toy_oaep _ _ demo_encrypts, of id toy_ucd] by auto
  moreover have "password y = password x" if "same_item x y" for x y
    using that by (cases x, cases y) (simp add: same_item_def)
  ultimately show ?thesis by (auto simp: list_all2_Cons1 demo_item_def)
qed

end
