(* ===== verification/CryptoTests.thy ===== *)
theory CryptoTests
  imports SyncTests VaultRoundTrip
begin

text \<open>
  The unit tests of \<open>src/vault/crypto.rs\<close> as boolean functions over the model. What a test takes from a
  crate (an RSA key and a ciphertext under it) is an argument of its function.
\<close>

section \<open>Tests\<close>

definition parse_tests :: "'rsa prims \<Rightarrow> bool" where
  "parse_tests P \<longleftrightarrow>
     ok_and (parse P (''2.'' @ b64_encode P (replicate 16 0) @ ''|'' @ b64_encode P (replicate 32 0) @ ''|''
         @ b64_encode P (replicate 32 0)))
       (\<lambda>cs. enc_type cs = 2 \<and> length (iv cs) = 16 \<and> length (ct cs) = 32 \<and> length (mac cs) = 32)
     \<and> ok_and (parse P (''0.'' @ b64_encode P (replicate 16 0) @ ''|'' @ b64_encode P (replicate 32 0)))
         (\<lambda>cs. enc_type cs = 0 \<and> mac cs = [])
     \<and> is_err (parse P []) \<and> is_err (parse P ''abcdef'') \<and> is_err (parse P ''x.abc|def|ghi'')
     \<and> is_err (parse P (''2.'' @ b64_encode P (replicate 16 0) @ ''|'' @ b64_encode P (replicate 32 0)))
     \<and> is_err (parse P (''5.'' @ b64_encode P (replicate 16 0) @ ''|'' @ b64_encode P (replicate 32 0) @ ''|''
         @ b64_encode P (replicate 32 0)))"

definition pkcs7_tests :: bool where
  "pkcs7_tests \<longleftrightarrow>
     ok_and (pkcs7_unpad [0x41, 0x42, 0x43, 0x44, 0x45, 0x46, 0x47, 0x48, 0x49, 0x4A, 0x4B, 0x4C, 0x4D, 0x4E, 0x4F, 0x01] 16)
       (\<lambda>result. length result = 15)
     \<and> ok_and (pkcs7_unpad (replicate 16 0x10) 16) (\<lambda>result. result = [])
     \<and> is_err (pkcs7_unpad [] 16)
     \<and> is_err (pkcs7_unpad ([0x41, 0x42, 0x43, 0x44, 0x45, 0x46, 0x47, 0x48, 0x49, 0x4A, 0x4B, 0x4C, 0x4D, 0x4E, 0x4F,
         0x00] [15 := 0x00]) 16)"

text \<open>The initialization vector of the round trips.\<close>

definition test_iv :: bytes where
  "test_iv = map (\<lambda>i. word_of_nat (i + 100)) [0..<16]"

definition type2_round_trip_test :: "'rsa prims \<Rightarrow> bool" where
  "type2_round_trip_test P \<longleftrightarrow>
     (let s = make_type2_cipherstring P (enc_key make_key) (mac_key make_key) test_iv (as_bytes ''Hello, Vaultwarden!'')
      in ok_and (parse P s) (\<lambda>cs. decrypt_to_string P cs make_key = Ok ''Hello, Vaultwarden!''))"

definition mac_mismatch_test :: "'rsa prims \<Rightarrow> bool" where
  "mac_mismatch_test P \<longleftrightarrow>
     ok_and (parse P (''2.'' @ b64_encode P (replicate 16 0) @ ''|'' @ b64_encode P (replicate 16 0) @ ''|''
         @ b64_encode P (replicate 32 0xFF)))
       (\<lambda>cs. decrypt P cs \<lparr>enc_key = replicate 32 0, mac_key = replicate 32 0\<rparr> = Err MacMismatch)"

definition master_key_tests :: "bool \<Rightarrow> ucd \<Rightarrow> 'rsa prims \<Rightarrow> bool" where
  "master_key_tests oc U P \<longleftrightarrow>
     ok_and (make_master_key oc U P ''password123'' ''user@example.com'' KDF_PBKDF2 600000 None None)
       (\<lambda>key. length key = 32
          \<and> key = pbkdf2_hmac_sha256 P (as_bytes ''password123'') (as_bytes ''user@example.com'') 600000 32)
     \<and> ok_and (make_master_key oc U P ''password123'' ''user@example.com'' KDF_ARGON2ID 3 (Some 64) (Some 4))
         (\<lambda>key. length key = 32)"

definition hash_password_test :: "'rsa prims \<Rightarrow> bool" where
  "hash_password_test P \<longleftrightarrow>
     (let hash = hash_password P ''password123'' (map word_of_nat [0..<32])
      in hash \<noteq> [] \<and> (case b64_decode P hash of Inr b \<Rightarrow> True | Inl e \<Rightarrow> False))"

definition stretch_key_test :: "'rsa prims \<Rightarrow> bool" where
  "stretch_key_test P \<longleftrightarrow>
     ok_and (stretch_key P (map word_of_nat [0..<32]))
       (\<lambda>sk. length (enc_key sk) = 32 \<and> length (mac_key sk) = 32 \<and> enc_key sk \<noteq> mac_key sk)"

definition decrypt_str_empty_test :: "'rsa prims \<Rightarrow> bool" where
  "decrypt_str_empty_test P \<longleftrightarrow> decrypt_str P [] \<lparr>enc_key = [], mac_key = []\<rparr> = Ok []"

definition parse_rsa_tests :: "'rsa prims \<Rightarrow> bool" where
  "parse_rsa_tests P \<longleftrightarrow>
     ok_and (parse P (''3.'' @ b64_encode P (replicate 256 0)))
       (\<lambda>cs. enc_type cs = ENC_TYPE_RSA2048_OAEP_SHA256_B64 \<and> length (ct cs) = 256 \<and> iv cs = [] \<and> mac cs = [])
     \<and> ok_and (parse P (''4.'' @ b64_encode P (replicate 256 0)))
         (\<lambda>cs. enc_type cs = ENC_TYPE_RSA2048_OAEP_SHA1_B64 \<and> length (ct cs) = 256)"

text \<open>\<open>oaep\<close> encrypts under the public key of \<open>k\<close>.\<close>

definition decrypt_rsa_tests :: "'rsa prims \<Rightarrow> (oaep_hash \<Rightarrow> bytes \<Rightarrow> bytes) \<Rightarrow> 'rsa \<Rightarrow> bool" where
  "decrypt_rsa_tests P oaep k \<longleftrightarrow>
     ok_and (parse P (''4.'' @ b64_encode P (oaep OaepSha1 (map word_of_nat [0..<64]))))
       (\<lambda>cs. ok_and (decrypt_rsa P cs k) (\<lambda>decrypted. length decrypted = 64 \<and> decrypted = map word_of_nat [0..<64]))
     \<and> ok_and (parse P (''3.'' @ b64_encode P (oaep OaepSha256 (as_bytes ''Hello RSA-OAEP-SHA256!''))))
         (\<lambda>cs. decrypt_rsa P cs k = Ok (as_bytes ''Hello RSA-OAEP-SHA256!''))
     \<and> decrypt_rsa P \<lparr>enc_type = ENC_TYPE_AES_CBC256_HMAC_SHA256_B64, iv = [], ct = as_bytes ''test'', mac = []\<rparr> k
         = Err (NotRsa 2)"

text \<open>\<open>der\<close> is the PKCS#8 form of \<open>k\<close>.\<close>

definition private_key_tests :: "'rsa prims \<Rightarrow> bytes \<Rightarrow> 'rsa \<Rightarrow> bool" where
  "private_key_tests P der k \<longleftrightarrow>
     (let s = make_type2_cipherstring P (enc_key make_key) (mac_key make_key) test_iv der
      in decrypt_private_key P s make_key = Ok k)
     \<and> decrypt_private_key P [] \<lparr>enc_key = [], mac_key = []\<rparr> = Err EmptyKey"

definition org_key_plain :: bytes where
  "org_key_plain = map word_of_nat [0..<32] @ map (\<lambda>i. word_of_nat (i + 64)) [0..<32]"

definition org_key_tests :: "'rsa prims \<Rightarrow> (oaep_hash \<Rightarrow> bytes \<Rightarrow> bytes) \<Rightarrow> 'rsa \<Rightarrow> bool" where
  "org_key_tests P oaep k \<longleftrightarrow>
     ok_and (decrypt_org_key P (''4.'' @ b64_encode P (oaep OaepSha1 org_key_plain)) k)
       (\<lambda>org_key. list_all (\<lambda>i. enc_key org_key ! i = word_of_nat i \<and> mac_key org_key ! i = word_of_nat (i + 64)) [0..<32])
     \<and> decrypt_org_key P [] k = Err EmptyKey
     \<and> decrypt_org_key P (''4.'' @ b64_encode P (oaep OaepSha1 (replicate 32 0))) k = Err (OrgKeyLength 32)"

section \<open>Lemmas\<close>

text \<open>The texts the tests build are those of \<open>cipher_text\<close>.\<close>

lemma show_types: "show_byte 0 = ''0''" "show_byte 2 = ''2''" "show_byte 3 = ''3''" "show_byte 4 = ''4''" "show_byte 5 = ''5''"
  by (simp_all add: show_byte_def show_nat.simps char_of_eq_iff)

lemma parse_texts:
  assumes "b64_laws P"
  shows "parse P (''2.'' @ b64_encode P v @ ''|'' @ b64_encode P c @ ''|'' @ b64_encode P m) =
      Ok \<lparr>enc_type = 2, iv = v, ct = c, mac = m\<rparr>"
    and "parse P (''0.'' @ b64_encode P v @ ''|'' @ b64_encode P c) = Ok \<lparr>enc_type = 0, iv = v, ct = c, mac = []\<rparr>"
    and "parse P (''3.'' @ b64_encode P c) = Ok \<lparr>enc_type = 3, iv = [], ct = c, mac = []\<rparr>"
    and "parse P (''4.'' @ b64_encode P c) = Ok \<lparr>enc_type = 4, iv = [], ct = c, mac = []\<rparr>"
proof -
  have written: "parse P (cipher_text P cs) = Ok cs" if "cipher_wf cs" for cs
    by (rule parse_cipher_text_aux [OF assms that])
  note simps = cipher_text_def cipher_wf_def enc_type_defs show_types
  show "parse P (''2.'' @ b64_encode P v @ ''|'' @ b64_encode P c @ ''|'' @ b64_encode P m) =
      Ok \<lparr>enc_type = 2, iv = v, ct = c, mac = m\<rparr>"
    using written [of "\<lparr>enc_type = 2, iv = v, ct = c, mac = m\<rparr>"] by (simp add: simps)
  show "parse P (''0.'' @ b64_encode P v @ ''|'' @ b64_encode P c) = Ok \<lparr>enc_type = 0, iv = v, ct = c, mac = []\<rparr>"
    using written [of "\<lparr>enc_type = 0, iv = v, ct = c, mac = []\<rparr>"] by (simp add: simps)
  show "parse P (''3.'' @ b64_encode P c) = Ok \<lparr>enc_type = 3, iv = [], ct = c, mac = []\<rparr>"
    using written [of "\<lparr>enc_type = 3, iv = [], ct = c, mac = []\<rparr>"] by (simp add: simps)
  show "parse P (''4.'' @ b64_encode P c) = Ok \<lparr>enc_type = 4, iv = [], ct = c, mac = []\<rparr>"
    using written [of "\<lparr>enc_type = 4, iv = [], ct = c, mac = []\<rparr>"] by (simp add: simps)
qed

lemma parse_errors:
  "is_err (parse P [])" "is_err (parse P ''abcdef'')" "is_err (parse P ''x.abc|def|ghi'')"
  "is_err (parse P (''5.'' @ rest))"
  by (simp_all add: parse_def str_eval enc_type_defs)

lemma parse_missing_mac:
  assumes "b64_laws P"
  shows "is_err (parse P (''2.'' @ b64_encode P v @ ''|'' @ b64_encode P c))"
proof -
  have "CHR ''|'' \<notin> set (b64_encode P b)" for b using assms by (simp add: b64_laws_def)
  then show ?thesis
    by (simp add: parse_def str_eval enc_type_defs numeral_eq_Suc split_once_None [THEN iffD2])
qed

lemma parse_passes: "b64_laws P \<Longrightarrow> parse_tests P \<and> parse_rsa_tests P"
  using parse_errors [of P] parse_missing_mac [of P]
  by (simp add: parse_tests_def parse_rsa_tests_def parse_texts [simplified] enc_type_defs)

lemma pkcs7_passes: "pkcs7_tests"
proof -
  have "pkcs7_unpad (replicate 16 0x10) 16 = Ok []"
    using pkcs7_unpad_pad [of "[]"] by (simp add: pkcs7_pad_def)
  then show ?thesis
    by (simp add: pkcs7_tests_def pkcs7_unpad_def [of "_ # _"] pkcs7_unpad_def [of "[]"] Let_def)
qed

section \<open>Laws of the primitives\<close>

text \<open>What the documentation of the crates promises and the tests rely on: the lengths of derived keys
  and hashes, parameters accepted, two different expansions of the key of the test, OAEP decryption of
  what was encrypted (up to the length limit), the empty string as the Base64 form of no bytes, and an authentication code
  that is not all ones.\<close>

definition kdf_laws :: "'rsa prims \<Rightarrow> bool" where
  "kdf_laws P \<longleftrightarrow> (\<forall>p s i n. length (pbkdf2_hmac_sha256 P p s i n) = n)
     \<and> argon2_params P (64 * 1024) 3 4 32 = None
     \<and> (\<forall>pw s. 8 \<le> length s \<and> length pw + length s < 2 ^ 32 \<longrightarrow>
          (\<exists>h. argon2id_hash P (64 * 1024) 3 4 32 pw s = Inr h \<and> length h = 32))"

definition hkdf_laws :: "'rsa prims \<Rightarrow> bool" where
  "hkdf_laws P \<longleftrightarrow> (let k = map word_of_nat [0..<32] in
     \<exists>hk e m. hkdf_from_prk P k = Some hk \<and> hkdf_expand P hk (as_bytes ''enc'') 32 = Some e
        \<and> hkdf_expand P hk (as_bytes ''mac'') 32 = Some m \<and> length e = 32 \<and> length m = 32 \<and> e \<noteq> m)"

lemma round_trip_passes:
  assumes "b64_laws P" and "aes_laws P"
  shows "type2_round_trip_test P"
    and "rsa_from_pkcs8_der P der = Inr k \<Longrightarrow> private_key_tests P der k"
proof -
  have iv: "length test_iv = 16" by (simp add: test_iv_def)
  have ascii: "list_all is_ascii ''Hello, Vaultwarden!''" by (simp add: is_ascii_def)
  note trip = decrypt_type2 [OF assms make_keys(1,3) iv]
  show "type2_round_trip_test P"
    using trip [of "as_bytes ''Hello, Vaultwarden!''"] from_utf8_as_bytes [OF utf8_ascii_literal [OF ascii]]
    by (auto simp: type2_round_trip_test_def Let_def decrypt_to_string_def simp del: as_bytes_def)
  show "private_key_tests P der k" if "rsa_from_pkcs8_der P der = Inr k"
    using trip [of der] that by (auto simp: private_key_tests_def decrypt_private_key_def Let_def)
qed

lemma mac_mismatch_passes:
  assumes "b64_laws P" and "hmac_sha256 P (replicate 32 0) (replicate 32 0) \<noteq> replicate 32 0xFF"
  shows "mac_mismatch_test P"
proof -
  have "replicate 16 0 @ replicate 16 0 = (replicate 32 0 :: bytes)" by (simp flip: replicate_add)
  then show ?thesis
    using assms(2) unfolding mac_mismatch_test_def parse_texts(1) [OF assms(1)]
    by (simp add: decrypt_def verify_mac_def enc_type_defs)
qed

lemma kdf_passes:
  assumes "kdf_laws P" and "b64_laws P" and "b64_encode P [] = []"
  shows "master_key_tests oc U P" and "hash_password_test P"
proof -
  have "list_all is_ascii ''user@example.com''" by (simp add: is_ascii_def)
  then have email: "to_lowercase U ''user@example.com'' = ''user@example.com''"
    by (simp add: to_lowercase_ascii ascii_lower_def)
  have trim: "trim ''user@example.com'' = ''user@example.com''" by (simp add: str_eval)
  have "length (as_bytes ''user@example.com'') = 16" "length (as_bytes ''password123'') = 11" by simp_all
  then obtain h where h: "argon2id_hash P (64 * 1024) 3 4 32 (as_bytes ''password123'') (as_bytes ''user@example.com'') = Inr h"
    "length h = 32"
    using conjunct2 [OF conjunct2 [OF assms(1) [unfolded kdf_laws_def]],
        rule_format, of "as_bytes ''user@example.com''" "as_bytes ''password123''"] by auto
  have kib: "mul_checked oc (64 :: u32) 1024 = (Ok (64 * 1024) :: (crypto_error, u32) outcome)" by (simp add: mul_checked_def)
  show "master_key_tests oc U P"
    using assms(1) h kib
    by (simp add: master_key_tests_def make_master_key_def trim email Let_def KDF_PBKDF2_def KDF_ARGON2ID_def kdf_laws_def)
  let ?k = "pbkdf2_hmac_sha256 P (map word_of_nat [0..<32]) (as_bytes ''password123'') 1 32"
  have "b64_decode P (b64_encode P b) = Inr b" for b using assms(2) by (simp add: b64_laws_def)
  moreover have "length ?k = 32" using assms(1) by (simp add: kdf_laws_def)
  ultimately have "b64_encode P ?k \<noteq> []"
    using assms(3) by (metis list.size(3) sum.inject(2) zero_neq_numeral)
  then show "hash_password_test P"
    using assms(2) by (simp add: hash_password_test_def hash_password_def Let_def b64_laws_def)
qed

lemma stretch_passes: "hkdf_laws P \<Longrightarrow> stretch_key_test P"
  by (auto simp: hkdf_laws_def Let_def stretch_key_test_def stretch_key_def)

lemma rsa_passes:
  assumes "b64_laws P" and "oaep_laws P oaep k"
  shows "decrypt_rsa_tests P oaep k" and "org_key_tests P oaep k"
proof -
  have oaep: "rsa_oaep_decrypt P h k (oaep h x) = Inr x" if "length x \<le> 190" for h x
    using assms(2) that by (cases h) (simp_all add: oaep_laws_def oaep_limit_def)
  note parsed = parse_texts [OF assms(1)]
  show "decrypt_rsa_tests P oaep k"
    unfolding decrypt_rsa_tests_def parsed by (simp add: decrypt_rsa_def enc_type_defs oaep)
  have "decrypt_org_key P (''4.'' @ b64_encode P (oaep OaepSha1 x)) k =
      (if length x \<noteq> 64 then Err (OrgKeyLength (length x)) else Ok (split_key x))" if "length x \<le> 190" for x
    unfolding decrypt_org_key_def parsed by (simp add: decrypt_rsa_def enc_type_defs oaep that)
  moreover have "decrypt_org_key P [] k = Err EmptyKey" by (simp add: decrypt_org_key_def)
  ultimately show "org_key_tests P oaep k"
    unfolding org_key_tests_def by (simp add: org_key_plain_def split_key_def list_all_iff)
qed

section \<open>All tests\<close>

text \<open>The unit tests of the cryptographic module pass on the model, in both overflow modes, for all
  primitives with the documented laws: cipher strings of every type are parsed or rejected, padding
  is checked, encrypted strings and wrapped keys come back, a wrong authentication code, a wrong type
  and a key of the wrong length are errors.\<close>

lemma crypto_tests_pass:
  assumes "b64_laws P" and "b64_encode P [] = []" and "aes_laws P" and "kdf_laws P" and "hkdf_laws P"
    and "oaep_laws P oaep k" and "rsa_from_pkcs8_der P der = Inr k"
    and "hmac_sha256 P (replicate 32 0) (replicate 32 0) \<noteq> replicate 32 0xFF"
  shows "parse_tests P \<and> pkcs7_tests \<and> type2_round_trip_test P \<and> mac_mismatch_test P \<and> master_key_tests oc U P
    \<and> hash_password_test P \<and> stretch_key_test P \<and> decrypt_str_empty_test P \<and> parse_rsa_tests P
    \<and> decrypt_rsa_tests P oaep k \<and> private_key_tests P der k \<and> org_key_tests P oaep k"
  using parse_passes [OF assms(1)] pkcs7_passes round_trip_passes [OF assms(1,3)] mac_mismatch_passes [OF assms(1,8)]
    kdf_passes [OF assms(4,1,2)] stretch_passes [OF assms(5)] rsa_passes [OF assms(1,6)] assms(7)
  by (simp add: decrypt_str_empty_test_def decrypt_str_def)

text \<open>The toy primitives satisfy the laws.\<close>

lemma toy_kdf_laws: "kdf_laws toy_prims"
  by (auto simp: kdf_laws_def toy_prims_def min_def)

lemma toy_hkdf_laws: "hkdf_laws toy_prims"
  by (auto simp: hkdf_laws_def Let_def toy_prims_def as_bytes_def byte_of_char_def)

lemma toy_mac_zero: "hmac_sha256 toy_prims (replicate 32 0) (replicate 32 0) \<noteq> replicate 32 0xFF"
  by (simp add: toy_prims_def)

lemma toy_crypto_tests:
  "parse_tests toy_prims \<and> pkcs7_tests \<and> type2_round_trip_test toy_prims \<and> mac_mismatch_test toy_prims
    \<and> master_key_tests oc U toy_prims \<and> hash_password_test toy_prims \<and> stretch_key_test toy_prims
    \<and> decrypt_str_empty_test toy_prims \<and> parse_rsa_tests toy_prims \<and> decrypt_rsa_tests toy_prims (\<lambda>h x. 5 # x) [5]
    \<and> private_key_tests toy_prims [5] [5] \<and> org_key_tests toy_prims (\<lambda>h x. 5 # x) [5]"
proof -
  have "b64_encode toy_prims [] = []" by (simp add: toy_prims_def nib_encode_def)
  moreover have "rsa_from_pkcs8_der toy_prims [5] = Inr [5]" by (simp add: toy_rsa)
  ultimately show ?thesis
    by (rule crypto_tests_pass [OF toy_b64_laws _ toy_aes_laws toy_kdf_laws toy_hkdf_laws toy_oaep _ toy_mac_zero])
qed

lemma toy_sync_tests: "decrypt_cipher_tests H toy_prims"
  using decrypt_cipher_passes [OF toy_b64_laws toy_aes_laws toy_mac_keys] .

end
