(* ===== verification/Spec2Isabelle.thy ===== *)
theory Spec2Isabelle
  imports Duration Lookup Secrecy Leader Health Background Interleavings Startup Lifecycle CryptoTests VaultRoundTrip ResourceJson
begin

text \<open>
  \<^bold>\<open>The Vaultwarden operator.\<close> A Kubernetes operator that keeps Secrets in step with items of a
  Vaultwarden (Bitwarden) vault. This development translates the Rust program under \<open>src/src/\<close> into
  HOL functions and proves what its parts promise.

  \<^bold>\<open>The program.\<close> A replica (\<open>main.rs\<close>) waits for the leader lease (\<open>leader.rs\<close>), reads its
  configuration from the environment and creates the vault client: \<open>vault/auth.rs\<close> logs in and derives
  the account key, \<open>vault/sync.rs\<close> fetches and decrypts the vault with \<open>vault/crypto.rs\<close>, and
  \<open>vault/mod.rs\<close> keeps the session (tokens, key, decrypted snapshot). Then three tasks run beside the
  controller: the token refresh, the periodic re-sync and the lease renewal. The controller
  (\<open>controller.rs\<close>) reconciles each \<open>VaultwardenSecret\<close> (\<open>crd.rs\<close>): it validates the spec (intervals with
  \<open>duration.rs\<close>), fetches the values from the snapshot (re-syncing on a miss, at most once per cooldown),
  writes the Secret and patches the status. A probe server (\<open>health.rs\<close>) answers from the beginning.

  \<^bold>\<open>The theories, in the order of their dependencies.\<close>
  \<^item> \<open>Prelude\<close>: the result of a computation that returns, fails or panics (\<open>outcome\<close>); the locale
    \<open>all_or_nothing\<close> of \<open>collect\<close>.
  \<^item> \<open>RustStr\<close>: strings as UTF-8 bytes and the operations of \<open>str\<close> the code calls.
  \<^item> \<open>Duration\<close> (\<open>duration.rs\<close>): \<open>parse_duration\<close>, proved to accept exactly a grammar of components and
    to give their sum in seconds, with the exact shortfall from the documented duration (components in \<open>ns\<close>,
    \<open>us\<close> and \<open>ms\<close> count as zero).
  \<^item> \<open>Crypto\<close> (\<open>vault/crypto.rs\<close>): \<open>parse\<close>, \<open>decrypt\<close>, \<open>decrypt_rsa\<close>, \<open>make_master_key\<close>, \<open>stretch_key\<close>, the key
    unwrapping functions and \<open>pkcs7_unpad\<close> (an instance of the locale \<open>padding_scheme\<close>); round trips with
    the encryption the tests use, and exactly when decryption succeeds.
  \<^item> \<open>VaultSync\<close>, \<open>Lookup\<close> (\<open>vault/sync.rs\<close>): \<open>decrypt_vault\<close>, \<open>find_item\<close>, \<open>lookup_item\<close>, \<open>extract_secret\<close>; one
    undecryptable item or organization affects no other, skipped items are counted, and lookups are
    related to declarative rankings.
  \<^item> \<open>VaultRoundTrip\<close>: what the clients of a user encrypted, under the account key or the wrapped keys of the
    organizations, is what \<open>decrypt_vault\<close> gives back.
  \<^item> \<open>Effects\<close>: actions over a history, and the answers of the outside (below).
  \<^item> \<open>Auth\<close> (\<open>vault/auth.rs\<close>): \<open>prelogin\<close>, the grants, \<open>authenticate\<close>, \<open>refresh_token\<close>; which requests are
    sent and in which order.
  \<^item> \<open>Client\<close> (\<open>vault/mod.rs\<close>): the \<open>session\<close> record and every operation on it, each run to completion;
    the locale \<open>refresh_on_miss\<close> states the contract of \<open>fetch_secrets\<close> and is interpreted on it.
  \<^item> \<open>Crd\<close>, \<open>Controller\<close> (\<open>crd.rs\<close>, \<open>controller.rs\<close>): the resource, its status as JSON (checked against the
    schema of the custom resource), conditions (the locale \<open>keyed_list\<close>) and merge patch;
    \<open>build_requests\<close>, \<open>reconcile_apply\<close> with every Kubernetes call: which calls, in which order and on which
    answers, with which contents, and what is returned. \<open>sync_attempt\<close> is the part of \<open>reconcile_apply\<close> before the
    first of these calls, on its own.
  \<^item> \<open>ResourceJson\<close> (\<open>crd.rs\<close>): what serde reads back of a spec and a status (round trips), and a resource in the
    cluster over many reconciliations: its status tells the last result and the latest success.
  \<^item> \<open>Secrecy\<close>: two runs of the reconciler compared (\<open>agree\<close>); the values of a vault reach the Secrets only,
    no request, status or result depends on them.
  \<^item> \<open>Leader\<close> (\<open>leader.rs\<close>): \<open>acquire\<close> and \<open>keep_renewing\<close>; exactly when they return and with which history.
  \<^item> \<open>Health\<close> (\<open>health.rs\<close>): one connection of the probe server.
  \<^item> \<open>Background\<close> (\<open>vault/mod.rs\<close>): the token refresh and the re-sync as loops of turns.
  \<^item> \<open>Refresh\<close> (\<open>vault/mod.rs\<close>): \<open>refresh_vault_cache\<close> and the functions it calls as a program counter, one step
    from await to await, proved to run as the operations of \<open>Client\<close> when nothing interferes.
  \<^item> \<open>Concurrency\<close>, \<open>Interleavings\<close> (\<open>vault/mod.rs\<close>): any number of callers of \<open>fetch_secrets\<close> and the two
    background tasks, interleaved at the awaits; mutual exclusion, the cooldown and a usable session as
    invariants (locale \<open>invariant_system\<close>); every run of a caller nobody interferes with ends as \<open>fetch_secrets\<close> of \<open>Client\<close>
    does, no call is stuck, and concrete runs show two lost updates.
  \<^item> \<open>Startup\<close>, \<open>Lifecycle\<close> (\<open>main.rs\<close>): the configuration and the start of a replica; the serving leader with
    its tasks, the lease renewal, the controller and the shutdown, as a step relation (a panic of a reconcile
    unwinds the controller or is contained, as \<open>panic_unwinds\<close> says); why a leader stops, and what may
    follow its last step-down.
  \<^item> \<open>ResourceTests\<close>, \<open>SyncTests\<close>, \<open>CryptoTests\<close>: the program's own unit tests (the \<open>tests\<close> modules of \<open>duration.rs\<close>,
    \<open>crd.rs\<close>, \<open>controller.rs\<close>, \<open>vault/sync.rs\<close>, \<open>vault/crypto.rs\<close>) over the definitions above, which pass
    them when the primitives have the laws the tests rely on; these are checks of the translation.
  \<^item> This theory: the life of a serving replica, across the components.

  \<^bold>\<open>How the code is modelled.\<close> Machine integers keep their width (\<open>u32\<close>, \<open>u64\<close> as words); where Rust
  overflows, the flag \<open>overflow_checks\<close> chooses between a panic and wrap-around. Errors are values of the
  code's own error types, texts included; a panic is the third outcome. Everything outside is a record
  \<open>env\<close> of functions of the history so far: the answers of the server, the clock, the cluster, the lease,
  and which arm of a \<open>select\<close> wins. A theorem for all \<open>E\<close> holds for every such outside, adversarial ones
  included. Where a theorem needs more (a clock that does not run backwards, the laws of Base64 and
  AES) it says so in a hypothesis and its witness shows an environment that satisfies it. Cryptographic
  primitives, serde, Unicode tables, the HTTP client and the lease library are parameters.

  \<^bold>\<open>Bounds and termination.\<close> No definition has fuel. Parsers and traversals are total functions; the
  start-up loop runs over its three attempt numbers; the loops of \<open>Leader\<close> and \<open>Background\<close>, which may run
  for ever, are partial functions into \<open>option\<close>, and the theorems about them say exactly when they
  return (or that they never do).

  \<^bold>\<open>Not modelled.\<close> Tracing and log texts; TLS and the sockets; schema generation (\<open>crdgen.rs\<close> prints what a
  derive macro produces); the watch stream, the work
  queue and the finalizer helper of kube-runtime, represented by the events it delivers and, in
  \<open>Lifecycle\<close>, by the parameter \<open>runtime\<close>; the signal handlers, represented by \<open>stop_at\<close> and the step \<open>signal\<close>.
  A step of \<open>Refresh\<close> that exchanges requests (a login is up to three) is atomic: it touches nothing other
  tasks see until its result is stored. A reconcile in flight is one step of \<open>Lifecycle\<close>; the
  interleaving of the vault calls of reconciles is the subject of \<open>Concurrency\<close>.
\<close>

section \<open>A serving replica\<close>

text \<open>What happens to the client of a replica after its start: reconciliations, turns of the two
  background tasks, and events of the other parts (lease renewals among them).\<close>

inductive replica_run ::
    "'rsa env \<Rightarrow> variables \<Rightarrow> (nat \<Rightarrow> string) \<Rightarrow> client_config \<Rightarrow> u64 \<Rightarrow> world \<Rightarrow> bool"
  for E vars dev c period where
  launched: "start_replica E vars dev h = Some (Serving c s period, h') \<Longrightarrow>
    replica_run E vars dev c period \<lparr>trace = h', session = s\<rparr>"
| reconciled: "replica_run E vars dev c period w \<Longrightarrow>
    replica_run E vars dev c period (snd (reconcile_event E c e w))"
| resynced: "replica_run E vars dev c period w \<Longrightarrow>
    replica_run E vars dev c period (snd (cache_refresh_turn E c w))"
| token_renewed: "replica_run E vars dev c period w \<Longrightarrow>
    replica_run E vars dev c period (snd (token_refresh_turn E c w))"
| elsewhere: "replica_run E vars dev c period w \<Longrightarrow>
    replica_run E vars dev c period (w\<lparr>trace := trace w @ es\<rparr>)"

lemma reconcile_initialized:
  assumes "initialized E (session w)"
  shows "initialized E (session (snd (reconcile_event E c e w)))"
proof (cases e)
  case (FinalizerApply v)
  have fetch: "initialized E (session w')" if "fetch_secrets E c reqs w = (r, w')" for reqs r w'
    using vault_client.fetch_ready [where E = E and c = c and reqs = reqs, OF assms] that by simp
  have "initialized E (session (snd (reconcile_apply E c v w)))"
    unfolding reconcile_apply_def
    by (cases "parse_sync_interval E (sync_interval (vws_spec_of v))";
        cases "build_requests E (vws_spec_of v)")
      (auto simp: abind_def amatch_def areturn_def afail_def alift_def azoom_def assms dest: fetch
        split: prod.splits outcome.splits)
  then show ?thesis by (simp add: reconcile_event_def FinalizerApply)
qed (simp add: reconcile_event_def areturn_def assms)

lemma token_turn_frames: "frames snapshot (token_refresh_turn E c)"
  unfolding token_refresh_turn_def token_sleep_def
  by (intro frame_rules) (simp_all add: snapshot_def)

lemma token_turn_initialized:
  "initialized E (session w) \<Longrightarrow> initialized E (session (snd (token_refresh_turn E c w)))"
  using framesD [OF token_turn_frames, of E c w] by (simp add: snapshot_def initialized_def)

lemma replica_run_inv:
  "replica_run E vars dev c period w \<Longrightarrow> initialized E (session w) \<and> period \<noteq> 0"
proof (induction rule: replica_run.induct)
  case (launched h s h')
  then show ?case using start_Serving run_leader_Serving by fastforce
next
  case (reconciled w e)
  then show ?case using reconcile_initialized by blast
next
  case (resynced w)
  then show ?case using cache_turn_initialized by blast
next
  case (token_renewed w)
  then show ?case using token_turn_initialized by blast
next
  case (elsewhere w es)
  then show ?case by simp
qed

text \<open>C5. From its start on, whatever reconciliations, re-syncs and token renewals a serving replica goes
  through and however they end, its client has a snapshot, no lookup panics or finds the vault
  uninitialized, and the period of the re-sync is positive.\<close>

theorem serving_replica_usable:
  assumes "replica_run E vars dev c period w"
  shows "vault (session w) \<noteq> None \<and> try_fetch_secrets E (session w) reqs \<noteq> Panic
    \<and> fst (fetch_secrets E c reqs w) \<noteq> Err NotInitialized \<and> 0 < period"
  using replica_run_inv [OF assms] initialized_usable [of E w reqs c] by (simp add: word_gt_0)

theorem serving_replica_usable_witness:
  "\<exists>c w. replica_run toy_env toy_vars (\<lambda>_. ''dev'') c 300 w
    \<and> fst (fetch_secrets toy_env c [] (snd (token_refresh_turn toy_env c w))) \<noteq> Err NotInitialized"
proof -
  obtain c s h' where "start_replica toy_env toy_vars (\<lambda>_. ''dev'') [] = Some (Serving c s 300, h')"
    using toy_start by blast
  then have run: "replica_run toy_env toy_vars (\<lambda>_. ''dev'') c 300 \<lparr>trace = h', session = s\<rparr>"
    by (rule replica_run.launched)
  from serving_replica_usable [OF replica_run.token_renewed [OF run], of "[]"] run show ?thesis by blast
qed

end
